theory Spec2Isabelle
  imports Complex_Main
begin

section \<open>Python values used by the data streaming service\<close>

text \<open>
  The service is \<^verbatim>\<open>data_streaming_service/server.py\<close>. Its numbers are Python
  floats (IEEE binary64) and unbounded Python ints. A float is modelled as the real
  number it denotes, or one of the three special values. Every arithmetic operation
  on two finite floats computes the exact result and rounds it; the rounding is the
  parameter \<open>rnd\<close> of each operation, so that theorems hold for every rounding, and
  \<open>b64\<close> below is the rounding of CPython (binary64, round to nearest, ties to even).
  A result beyond the binary64 range (which Python turns into an infinity) and the
  sign of zero are not modelled.
\<close>

datatype pyfloat = Fin real | PInf | NInf | NaN

datatype py_exn =
  ValueError | TypeError | AttributeError | OverflowError | ZeroDivisionError

text \<open>Comparison \<^verbatim>\<open>a < b\<close>: false whenever a NaN is involved.\<close>

fun f_lt :: "pyfloat \<Rightarrow> pyfloat \<Rightarrow> bool" where
  "f_lt NaN _ = False"
| "f_lt _ NaN = False"
| "f_lt (Fin x) (Fin y) = (x < y)"
| "f_lt (Fin x) PInf = True"
| "f_lt (Fin x) NInf = False"
| "f_lt PInf _ = False"
| "f_lt NInf NInf = False"
| "f_lt NInf _ = True"

definition f_gt :: "pyfloat \<Rightarrow> pyfloat \<Rightarrow> bool" where
  "f_gt a b = f_lt b a"

text \<open>Comparison \<^verbatim>\<open>a <= b\<close>.\<close>

fun f_le :: "pyfloat \<Rightarrow> pyfloat \<Rightarrow> bool" where
  "f_le NaN _ = False"
| "f_le _ NaN = False"
| "f_le a b = (\<not> f_lt b a)"

text \<open>
  The builtins \<^verbatim>\<open>max(a, b)\<close> and \<^verbatim>\<open>min(a, b)\<close> keep the first argument
  unless the second compares strictly beyond it.
\<close>

definition py_max :: "pyfloat \<Rightarrow> pyfloat \<Rightarrow> pyfloat" where
  "py_max a b = (if f_gt b a then b else a)"

definition py_min :: "pyfloat \<Rightarrow> pyfloat \<Rightarrow> pyfloat" where
  "py_min a b = (if f_lt b a then b else a)"

fun f_neg :: "pyfloat \<Rightarrow> pyfloat" where
  "f_neg (Fin x) = Fin (- x)"
| "f_neg PInf = NInf"
| "f_neg NInf = PInf"
| "f_neg NaN = NaN"

fun f_add :: "(real \<Rightarrow> real) \<Rightarrow> pyfloat \<Rightarrow> pyfloat \<Rightarrow> pyfloat" where
  "f_add rnd NaN _ = NaN"
| "f_add rnd _ NaN = NaN"
| "f_add rnd (Fin x) (Fin y) = Fin (rnd (x + y))"
| "f_add rnd (Fin x) b = b"
| "f_add rnd PInf NInf = NaN"
| "f_add rnd NInf PInf = NaN"
| "f_add rnd a _ = a"

definition f_sub :: "(real \<Rightarrow> real) \<Rightarrow> pyfloat \<Rightarrow> pyfloat \<Rightarrow> pyfloat" where
  "f_sub rnd a b = f_add rnd a (f_neg b)"

text \<open>The infinity with the sign of a non-zero real.\<close>

definition inf_of_sign :: "real \<Rightarrow> pyfloat" where
  "inf_of_sign s = (if 0 < s then PInf else NInf)"

fun f_sign :: "pyfloat \<Rightarrow> real" where
  "f_sign (Fin x) = sgn x"
| "f_sign PInf = 1"
| "f_sign NInf = - 1"
| "f_sign NaN = 0"

fun f_mul :: "(real \<Rightarrow> real) \<Rightarrow> pyfloat \<Rightarrow> pyfloat \<Rightarrow> pyfloat" where
  "f_mul rnd NaN _ = NaN"
| "f_mul rnd _ NaN = NaN"
| "f_mul rnd (Fin x) (Fin y) = Fin (rnd (x * y))"
| "f_mul rnd a b =
     (if f_sign a * f_sign b = 0 then NaN else inf_of_sign (f_sign a * f_sign b))"

text \<open>
  True division \<^verbatim>\<open>a / b\<close> raises ZeroDivisionError for a zero divisor, whatever
  the dividend.
\<close>

fun f_div :: "(real \<Rightarrow> real) \<Rightarrow> pyfloat \<Rightarrow> pyfloat \<Rightarrow> py_exn + pyfloat" where
  "f_div rnd a (Fin y) =
     (if y = 0 then Inl ZeroDivisionError
      else case a of
        Fin x \<Rightarrow> Inr (Fin (rnd (x / y)))
      | NaN \<Rightarrow> Inr NaN
      | _ \<Rightarrow> Inr (inf_of_sign (f_sign a * sgn y)))"
| "f_div rnd a NaN = Inr NaN"
| "f_div rnd (Fin x) _ = Inr (Fin 0)"
| "f_div rnd _ _ = Inr NaN"

subsection \<open>Rounding to binary64\<close>

text \<open>Rounding a real to the nearest integer, a tie going to the even neighbour.\<close>

definition rne :: "real \<Rightarrow> int" where
  "rne x =
     (let f = \<lfloor>x\<rfloor>; r = x - of_int f
      in if r < 1 / 2 then f
         else if 1 / 2 < r then f + 1
         else if even f then f else f + 1)"

text \<open>
  The exponent \<open>e\<close> of the unit in the last place of a positive real \<open>x\<close>:
  \<open>2 ^ 52 \<le> x / 2 ^ e < 2 ^ 53\<close>, and never below the subnormal exponent \<open>- 1074\<close>.
  The search starts at \<open>e = 0\<close> and has enough fuel for the whole binary64 range.
\<close>

fun ulp_exp :: "nat \<Rightarrow> real \<Rightarrow> int \<Rightarrow> int" where
  "ulp_exp 0 x e = e"
| "ulp_exp (Suc n) x e =
     (if x < 4503599627370496 \<and> - 1074 < e then ulp_exp n (2 * x) (e - 1)
      else if 9007199254740992 \<le> x then ulp_exp n (x / 2) (e + 1)
      else e)"

definition b64 :: "real \<Rightarrow> real" where
  "b64 x =
     (if x = 0 then 0
      else let e = ulp_exp 2200 \<bar>x\<bar> 0
           in sgn x * of_int (rne (\<bar>x\<bar> * 2 powi (- e))) * 2 powi e)"

section \<open>SimpleMovingAverage\<close>

record sma =
  period :: int
  window :: "pyfloat list"
  sum_acc :: pyfloat

text \<open>\<^verbatim>\<open>__init__\<close>: the period is raised to at least 1.\<close>

definition SimpleMovingAverage :: "int \<Rightarrow> sma" where
  "SimpleMovingAverage p = \<lparr>period = max 1 p, window = [], sum_acc = Fin 0\<rparr>"

text \<open>
  \<^verbatim>\<open>update\<close> appends the value and adds it to the sum; a window longer than the
  period loses its oldest value, which is subtracted from the sum; the result is
  \<^verbatim>\<open>None\<close> below the period and \<^verbatim>\<open>self.sum / len(self.window)\<close> otherwise. The
  state is returned with the result.
\<close>

definition update :: "(real \<Rightarrow> real) \<Rightarrow> sma \<Rightarrow> pyfloat \<Rightarrow> py_exn + (sma \<times> pyfloat option)" where
  "update rnd s v =
     (let w1 = window s @ [v];
          s1 = f_add rnd (sum_acc s) v;
          popped = (period s < int (length w1));
          w2 = (if popped then tl w1 else w1);
          s2 = (if popped then f_sub rnd s1 (hd w1) else s1);
          st = s\<lparr>window := w2, sum_acc := s2\<rparr>
      in if int (length w2) < period s then Inr (st, None)
         else case f_div rnd s2 (Fin (real (length w2))) of
                Inl e \<Rightarrow> Inl e
              | Inr q \<Rightarrow> Inr (st, Some q))"

text \<open>Feeding a sequence of values to one instance, collecting the results.\<close>

fun feed :: "(real \<Rightarrow> real) \<Rightarrow> sma \<Rightarrow> pyfloat list \<Rightarrow> py_exn + (sma \<times> pyfloat option list)" where
  "feed rnd s [] = Inr (s, [])"
| "feed rnd s (v # vs) =
     (case update rnd s v of
        Inl e \<Rightarrow> Inl e
      | Inr (s1, r) \<Rightarrow>
          (case feed rnd s1 vs of
             Inl e \<Rightarrow> Inl e
           | Inr (s2, rs) \<Rightarrow> Inr (s2, r # rs)))"

text \<open>The last \<open>k\<close> elements of a list (the whole list when it is shorter).\<close>

definition lastn :: "nat \<Rightarrow> 'a list \<Rightarrow> 'a list" where
  "lastn k xs = drop (length xs - k) xs"

text \<open>What \<^verbatim>\<open>__init__\<close> establishes and \<^verbatim>\<open>update\<close> keeps.\<close>

definition sma_ok :: "sma \<Rightarrow> bool" where
  "sma_ok s = (1 \<le> period s \<and> int (length (window s)) \<le> period s)"

text \<open>The window holds finite values and the sum field is their exact sum.\<close>

definition exact_sum :: "sma \<Rightarrow> bool" where
  "exact_sum s = (\<exists>xs. window s = map Fin xs \<and> sum_acc s = Fin (sum_list xs))"

text \<open>
  The specification's results for period \<open>p\<close> on the inputs \<open>xs\<close>: absent during
  warm-up, then the arithmetic mean of the last \<open>max 1 p\<close> values.
\<close>

definition sma_means :: "int \<Rightarrow> real list \<Rightarrow> pyfloat option list" where
  "sma_means p xs =
     map (\<lambda>i. if int i + 1 < max 1 p then None
               else Some (Fin (sum_list (lastn (nat (max 1 p)) (take (i + 1) xs)) / of_int (max 1 p))))
       [0..<length xs]"

section \<open>Strings, integers and JSON values\<close>

text \<open>
  \<^verbatim>\<open>int(s)\<close> for a string of ASCII characters: surrounding whitespace is
  dropped, one sign is allowed, and the digits may be grouped by single underscores.
  \<^verbatim>\<open>None\<close> stands for ValueError.
\<close>

definition is_space :: "char \<Rightarrow> bool" where
  "is_space c = (of_char c \<in> {9, 10, 11, 12, 13, 28, 29, 30, 31, 32 :: nat})"

definition is_digit :: "char \<Rightarrow> bool" where
  "is_digit c = (48 \<le> (of_char c :: nat) \<and> (of_char c :: nat) \<le> 57)"

definition digit_val :: "char \<Rightarrow> int" where
  "digit_val c = int (of_char c) - 48"

definition strip :: "string \<Rightarrow> string" where
  "strip s = rev (dropWhile is_space (rev (dropWhile is_space s)))"

fun digits_acc :: "string \<Rightarrow> int \<Rightarrow> int option" where
  "digits_acc [] acc = Some acc"
| "digits_acc (c # cs) acc =
     (if is_digit c then digits_acc cs (10 * acc + digit_val c)
      else if c = CHR ''_'' \<and> cs \<noteq> [] \<and> is_digit (hd cs) then digits_acc cs acc
      else None)"

definition py_int_digits :: "string \<Rightarrow> int option" where
  "py_int_digits s = (if s \<noteq> [] \<and> is_digit (hd s) then digits_acc s 0 else None)"

definition py_int_str :: "string \<Rightarrow> int option" where
  "py_int_str s =
     (case strip s of
        [] \<Rightarrow> None
      | c # cs \<Rightarrow>
          if c = CHR ''-'' then map_option uminus (py_int_digits cs)
          else if c = CHR ''+'' then py_int_digits cs
          else py_int_digits (c # cs))"

text \<open>The decimal digits of a natural number, as an f-string prints an int.\<close>

fun show_nat :: "nat \<Rightarrow> string" where
  "show_nat n =
     (if n < 10 then [char_of (48 + n)]
      else show_nat (n div 10) @ [char_of (48 + n mod 10)])"

declare show_nat.simps [simp del]

text \<open>
  A decoded JSON value. A JSON object is the dict it decodes to, kept as an
  association list; \<^verbatim>\<open>d.get(k)\<close> is \<^verbatim>\<open>None\<close> for a missing key.
\<close>

datatype json =
  JNull | JBool bool | JInt int | JFloat pyfloat | JStr string
  | JList "json list" | JObj "(string \<times> json) list"

definition get_default :: "(string \<times> json) list \<Rightarrow> string \<Rightarrow> json \<Rightarrow> json" where
  "get_default kv k d = (case map_of kv k of None \<Rightarrow> d | Some v \<Rightarrow> v)"

definition get :: "(string \<times> json) list \<Rightarrow> string \<Rightarrow> json" where
  "get kv k = get_default kv k JNull"

text \<open>Truth value of a JSON value in a Python condition.\<close>

fun truthy :: "json \<Rightarrow> bool" where
  "truthy JNull = False"
| "truthy (JBool b) = b"
| "truthy (JInt n) = (n \<noteq> 0)"
| "truthy (JFloat f) = (f \<noteq> Fin 0)"
| "truthy (JStr s) = (s \<noteq> [])"
| "truthy (JList xs) = (xs \<noteq> [])"
| "truthy (JObj kv) = (kv \<noteq> [])"

text \<open>
  \<^verbatim>\<open>int(x)\<close> on a JSON value: a float is truncated towards zero, a NaN is a
  ValueError, an infinity an OverflowError, and \<^verbatim>\<open>None\<close>, lists and dicts are
  a TypeError.
\<close>

fun py_int :: "json \<Rightarrow> py_exn + int" where
  "py_int (JInt n) = Inr n"
| "py_int (JBool b) = Inr (if b then 1 else 0)"
| "py_int (JFloat (Fin r)) = Inr (if 0 \<le> r then \<lfloor>r\<rfloor> else \<lceil>r\<rceil>)"
| "py_int (JFloat NaN) = Inl ValueError"
| "py_int (JFloat _) = Inl OverflowError"
| "py_int (JStr s) = (case py_int_str s of None \<Rightarrow> Inl ValueError | Some n \<Rightarrow> Inr n)"
| "py_int _ = Inl TypeError"

text \<open>
  \<^verbatim>\<open>float(x)\<close> on a JSON value. The conversion of a string is the parameter
  \<open>to_float\<close> (\<^verbatim>\<open>None\<close> for ValueError); an int too large for a float is an
  OverflowError.
\<close>

fun py_float :: "(real \<Rightarrow> real) \<Rightarrow> (string \<Rightarrow> pyfloat option) \<Rightarrow> json \<Rightarrow> py_exn + pyfloat" where
  "py_float rnd to_float (JInt n) =
     (if 2 ^ 1024 - 2 ^ 970 \<le> \<bar>n\<bar> then Inl OverflowError else Inr (Fin (rnd (of_int n))))"
| "py_float rnd to_float (JBool b) = Inr (Fin (if b then 1 else 0))"
| "py_float rnd to_float (JFloat f) = Inr f"
| "py_float rnd to_float (JStr s) =
     (case to_float s of None \<Rightarrow> Inl ValueError | Some f \<Rightarrow> Inr f)"
| "py_float rnd to_float _ = Inl TypeError"

text \<open>The float literal \<^verbatim>\<open>0.1\<close>: the binary64 number nearest to one tenth.\<close>

definition tenth :: pyfloat where
  "tenth = Fin (3602879701896397 / 36028797018963968)"

section \<open>Configuration\<close>

text \<open>
  The module-level tunables, read from the environment when the module is loaded.
\<close>

record config =
  POLL_INTERVAL_SECONDS :: pyfloat
  DEFAULT_BATCH_SIZE :: int
  MAX_BATCH_SIZE :: int
  MIN_EMIT_DELAY_MS :: pyfloat
  MAX_EMIT_DELAY_MS :: pyfloat
  BASE_DELAY_MS :: pyfloat
  REFERENCE_DELTA_MS :: pyfloat

definition default_config :: config where
  "default_config =
     \<lparr>POLL_INTERVAL_SECONDS = Fin (1 / 2), DEFAULT_BATCH_SIZE = 500, MAX_BATCH_SIZE = 2000,
      MIN_EMIT_DELAY_MS = Fin 1, MAX_EMIT_DELAY_MS = Fin 250, BASE_DELAY_MS = Fin 400,
      REFERENCE_DELTA_MS = Fin 900000\<rparr>"

section \<open>clamp_batch_size\<close>

text \<open>
  The requested size is the default when the parameter is absent, empty or not an
  integer; the result is capped at the maximum and then raised to at least 1.
\<close>

definition clamp_batch_size :: "config \<Rightarrow> string option \<Rightarrow> int" where
  "clamp_batch_size cfg raw =
     (let requested =
        (case raw of
           None \<Rightarrow> DEFAULT_BATCH_SIZE cfg
         | Some s \<Rightarrow>
             if s = [] then DEFAULT_BATCH_SIZE cfg
             else (case py_int_str s of
                     None \<Rightarrow> DEFAULT_BATCH_SIZE cfg
                   | Some n \<Rightarrow> n))
      in max 1 (min requested (MAX_BATCH_SIZE cfg)))"

section \<open>Indicator registry\<close>

text \<open>
  One entry of \<^verbatim>\<open>indicator_instances\<close>: the dict with the keys \<^verbatim>\<open>id\<close>,
  \<^verbatim>\<open>warmup\<close> and \<^verbatim>\<open>impl\<close>.
\<close>

record indicator_instance =
  inst_id :: json
  warmup :: int
  impl :: sma

text \<open>
  The period of a spec: \<^verbatim>\<open>int((spec.get("params") or {}).get("period", 20))\<close>.
  A true \<^verbatim>\<open>params\<close> value that is not a dict has no \<^verbatim>\<open>get\<close>.
\<close>

definition period_raw :: "(string \<times> json) list \<Rightarrow> py_exn + json" where
  "period_raw kv =
     (let p = get kv ''params''
      in case (if truthy p then p else JObj []) of
           JObj pkv \<Rightarrow> Inr (get_default pkv ''period'' (JInt 20))
         | _ \<Rightarrow> Inl AttributeError)"

definition spec_period :: "(string \<times> json) list \<Rightarrow> py_exn + int" where
  "spec_period kv = (case period_raw kv of Inl e \<Rightarrow> Inl e | Inr j \<Rightarrow> py_int j)"

text \<open>
  The body of the loop over the specs: \<^verbatim>\<open>None\<close> is \<^verbatim>\<open>continue\<close>, an
  instance is what is appended, and an exception other than TypeError and ValueError
  leaves the loop.
\<close>

definition spec_instance :: "json \<Rightarrow> py_exn + indicator_instance option" where
  "spec_instance spec =
     (case spec of
        JObj kv \<Rightarrow>
          if get kv ''type'' \<noteq> JStr ''sma'' then Inr None
          else (case spec_period kv of
                  Inl e \<Rightarrow> if e = TypeError \<or> e = ValueError then Inr None else Inl e
                | Inr n \<Rightarrow>
                    let period_val = max 1 n
                    in Inr (Some
                         \<lparr>inst_id = (if truthy (get kv ''id'') then get kv ''id''
                                     else JStr (''sma-'' @ show_nat (nat period_val))),
                          warmup = max 0 (period_val - 1),
                          impl = SimpleMovingAverage period_val\<rparr>))
      | _ \<Rightarrow> Inr None)"

fun build_instances :: "json list \<Rightarrow> py_exn + indicator_instance list" where
  "build_instances [] = Inr []"
| "build_instances (spec # specs) =
     (case spec_instance spec of
        Inl e \<Rightarrow> Inl e
      | Inr r \<Rightarrow>
          (case build_instances specs of
             Inl e \<Rightarrow> Inl e
           | Inr is \<Rightarrow> Inr (case r of None \<Rightarrow> is | Some i \<Rightarrow> i # is)))"

text \<open>
  The \<^verbatim>\<open>indicators\<close> parameter. \<open>loads\<close> is \<^verbatim>\<open>json.loads\<close>, with \<^verbatim>\<open>None\<close>
  for JSONDecodeError, the one exception this block handles: the outer \<^verbatim>\<open>Inl\<close>
  is an exception that escapes, the inner one the decoding error.
\<close>

definition parse_indicators ::
    "(string \<Rightarrow> json option) \<Rightarrow> string option \<Rightarrow> py_exn + (unit + indicator_instance list)" where
  "parse_indicators loads indicators_raw =
     (case indicators_raw of
        None \<Rightarrow> Inr (Inr [])
      | Some s \<Rightarrow>
          if s = [] then Inr (Inr [])
          else (case loads s of
                  None \<Rightarrow> Inr (Inl ())
                | Some (JList specs) \<Rightarrow>
                    (case build_instances specs of Inl e \<Rightarrow> Inl e | Inr is \<Rightarrow> Inr (Inr is))
                | Some _ \<Rightarrow> Inr (Inr [])))"

section \<open>Session state and setup\<close>

record candle =
  timestamp :: pyfloat
  symbol :: string
  timeframe :: string
  dataset_id :: "string option"
  open_px :: pyfloat
  high :: pyfloat
  low :: pyfloat
  close :: pyfloat
  volume :: pyfloat

text \<open>
  What the handler does to the outside: an ERROR message, a CANDLE message with its
  optional indicator map (a dict, kept as an association list), and a pacing sleep
  in milliseconds.
\<close>

datatype action =
  ERROR string
  | CANDLE candle "(json \<times> pyfloat option) list option"
  | SLEEP_MS pyfloat

datatype status = Running | Raised py_exn | Disconnected

text \<open>
  The local variables of \<^verbatim>\<open>_handle_candle_stream\<close> that outlive the setup.
  \<open>listening\<close> says that the control listener task has not returned, \<open>pending\<close>
  holds the rows of the current batch that the loop has not reached yet, \<open>sent\<close>
  is the log of actions, and \<open>status\<close> says how the replay loop stands.
\<close>

record session =
  sym :: string
  tf :: string
  dataset :: "string option"
  batch_size :: int
  speed :: pyfloat
  paused :: bool
  last_sent_ts :: "pyfloat option"
  last_timestamp :: "pyfloat option"
  indicator_instances :: "indicator_instance list"
  listening :: bool
  pending :: "candle list"
  sent :: "action list"
  status :: status

text \<open>\<^verbatim>\<open>a or b\<close> on two optional strings.\<close>

definition str_or :: "string option \<Rightarrow> string option \<Rightarrow> string option" where
  "str_or a b = (case a of None \<Rightarrow> b | Some s \<Rightarrow> if s = [] then b else Some s)"

text \<open>
  The speed at setup: \<^verbatim>\<open>max(0.1, float(speed_raw))\<close>, and 1.0 when the parameter is
  absent or is not a number.
\<close>

definition initial_speed :: "(string \<Rightarrow> pyfloat option) \<Rightarrow> string option \<Rightarrow> pyfloat" where
  "initial_speed to_float speed_raw =
     (case speed_raw of
        None \<Rightarrow> Fin 1
      | Some s \<Rightarrow> (case to_float s of None \<Rightarrow> Fin 1 | Some x \<Rightarrow> py_max tenth x))"

text \<open>
  The outcome of the setup: the channel closed after the actions sent, an exception
  that nothing handles, or the control listener started and the replay loop entered.
  The cursor \<^verbatim>\<open>last_timestamp\<close> starts as the int read from \<^verbatim>\<open>after\<close> or
  \<^verbatim>\<open>from\<close>, kept here as the number it is.
\<close>

datatype setup_result = Closed "action list" | Failed py_exn | Started session

definition handle_setup ::
    "config \<Rightarrow> (string \<Rightarrow> pyfloat option) \<Rightarrow> (string \<Rightarrow> json option) \<Rightarrow>
     (string \<Rightarrow> string option) \<Rightarrow> setup_result" where
  "handle_setup cfg to_float loads params =
     (let symbol_p = params ''symbol'';
          timeframe_p = params ''timeframe'';
          dataset_p = str_or (params ''datasetId'') (params ''dataset_id'');
          after_raw = str_or (params ''after'') (params ''from'');
          bs = clamp_batch_size cfg (params ''batch'');
          sp = initial_speed to_float (params ''speed'')
      in if symbol_p = None \<or> symbol_p = Some [] \<or> timeframe_p = None \<or> timeframe_p = Some []
         then Closed [ERROR ''symbol and timeframe query params are required'']
         else case (case after_raw of None \<Rightarrow> Some None
                    | Some a \<Rightarrow> map_option (\<lambda>n. Some (Fin (of_int n))) (py_int_str a)) of
                None \<Rightarrow> Closed [ERROR ''after/from must be a unix epoch in milliseconds'']
              | Some cursor \<Rightarrow>
                  (case parse_indicators loads (params ''indicators'') of
                     Inl e \<Rightarrow> Failed e
                   | Inr (Inl _) \<Rightarrow> Closed [ERROR ''invalid indicators payload'']
                   | Inr (Inr insts) \<Rightarrow>
                       Started
                         \<lparr>sym = the symbol_p, tf = the timeframe_p, dataset = dataset_p,
                          batch_size = bs, speed = sp, paused = False,
                          last_sent_ts = None, last_timestamp = cursor,
                          indicator_instances = insts, listening = True,
                          pending = [], sent = [], status = Running\<rparr>))"

section \<open>Pacing\<close>

text \<open>
  The delay computed after a record is sent, from the timestamp delta and the
  current speed: the statements between the comment
  \<^verbatim>\<open># Compute delay based on timestamp deltas and current speed.\<close> and the sleep.
\<close>

definition dynamic_max :: "(real \<Rightarrow> real) \<Rightarrow> config \<Rightarrow> pyfloat \<Rightarrow> py_exn + pyfloat" where
  "dynamic_max rnd cfg sp =
     (case f_div rnd sp (Fin 10) of
        Inl e \<Rightarrow> Inl e
      | Inr tenth_of_speed \<Rightarrow>
          (case f_div rnd (MAX_EMIT_DELAY_MS cfg) (py_max (Fin 1) tenth_of_speed) of
             Inl e \<Rightarrow> Inl e
           | Inr q \<Rightarrow> Inr (py_max (Fin 20) q)))"

definition pacing_delay :: "(real \<Rightarrow> real) \<Rightarrow> config \<Rightarrow> pyfloat \<Rightarrow> pyfloat \<Rightarrow> py_exn + pyfloat" where
  "pacing_delay rnd cfg delta_ms sp =
     (case f_div rnd delta_ms (REFERENCE_DELTA_MS cfg) of
        Inl e \<Rightarrow> Inl e
      | Inr ratio \<Rightarrow>
          let normalized = f_mul rnd ratio (BASE_DELAY_MS cfg)
          in (case f_div rnd normalized (py_max sp tenth) of
                Inl e \<Rightarrow> Inl e
              | Inr delay_ms \<Rightarrow>
                  (case dynamic_max rnd cfg sp of
                     Inl e \<Rightarrow> Inl e
                   | Inr dmax \<Rightarrow> Inr (py_max (MIN_EMIT_DELAY_MS cfg) (py_min dmax delay_ms)))))"

text \<open>
  The formula of the specification, written as one expression:
  \<open>clamp raw lo hi\<close> with \<open>raw = (deltaMs / referenceDeltaMs) * baseDelayMs / max(speed, 0.1)\<close>
  and \<open>hi = max(20, maxEmitDelayMs / max(1, speed / 10))\<close>. A clamp raises its argument
  to the lower bound after capping it at the upper bound; a division by zero has no
  value.
\<close>

definition clamp :: "pyfloat \<Rightarrow> pyfloat \<Rightarrow> pyfloat \<Rightarrow> pyfloat" where
  "clamp x lo hi = py_max lo (py_min hi x)"

definition div_then :: "py_exn + pyfloat \<Rightarrow> (pyfloat \<Rightarrow> py_exn + pyfloat) \<Rightarrow> py_exn + pyfloat" where
  "div_then r k = (case r of Inl e \<Rightarrow> Inl e | Inr x \<Rightarrow> k x)"

definition delay_spec :: "(real \<Rightarrow> real) \<Rightarrow> config \<Rightarrow> pyfloat \<Rightarrow> pyfloat \<Rightarrow> py_exn + pyfloat" where
  "delay_spec rnd cfg delta_ms sp =
     div_then (f_div rnd delta_ms (REFERENCE_DELTA_MS cfg)) (\<lambda>ratio.
     div_then (f_div rnd (f_mul rnd ratio (BASE_DELAY_MS cfg)) (py_max sp tenth)) (\<lambda>raw.
     div_then (f_div rnd sp (Fin 10)) (\<lambda>s10.
     div_then (f_div rnd (MAX_EMIT_DELAY_MS cfg) (py_max (Fin 1) s10)) (\<lambda>q.
       Inr (clamp raw (MIN_EMIT_DELAY_MS cfg) (py_max (Fin 20) q))))))"

text \<open>The dynamic maximum and the unclamped delay on finite arguments, as reals.\<close>

definition dmax_real :: "(real \<Rightarrow> real) \<Rightarrow> real \<Rightarrow> real \<Rightarrow> real" where
  "dmax_real rnd mx s = max 20 (rnd (mx / max 1 (rnd (s / 10))))"

definition raw_real :: "(real \<Rightarrow> real) \<Rightarrow> real \<Rightarrow> real \<Rightarrow> real \<Rightarrow> real \<Rightarrow> real \<Rightarrow> real" where
  "raw_real rnd ref base t d s = rnd (rnd (rnd (d / ref) * base) / max s t)"

section \<open>Replay loop and control listener\<close>

text \<open>
  The indicator map of one record is a Python dict whose keys are ids. A dict
  compares keys with \<^verbatim>\<open>==\<close> (after the hash, which agrees on equal keys): a bool is
  the int 0 or 1, an int and a finite float are equal when they are the same number,
  so \<^verbatim>\<open>1\<close>, \<^verbatim>\<open>1.0\<close> and \<^verbatim>\<open>True\<close> are one key; a string equals only the same
  string, \<^verbatim>\<open>None\<close> only \<^verbatim>\<open>None\<close>. The non-finite floats of a decoded document are
  the three constants of the decoder, each one object, and a key that is the same
  object always matches. \<open>key_num\<close> is the number a key stands for.
\<close>

fun key_num :: "json \<Rightarrow> real option" where
  "key_num (JBool b) = Some (if b then 1 else 0)"
| "key_num (JInt n) = Some (of_int n)"
| "key_num (JFloat (Fin r)) = Some r"
| "key_num _ = None"

definition py_key_eq :: "json \<Rightarrow> json \<Rightarrow> bool" where
  "py_key_eq a b =
     (case key_num a of
        Some x \<Rightarrow> (case key_num b of Some y \<Rightarrow> x = y | None \<Rightarrow> False)
      | None \<Rightarrow> (case key_num b of Some y \<Rightarrow> False | None \<Rightarrow> a = b))"

text \<open>
  \<^verbatim>\<open>d[k] = v\<close>: an entry whose key equals \<open>k\<close> keeps its key and its place and takes
  the new value; otherwise the entry is added at the end. \<^verbatim>\<open>d.get(k)\<close> is the value
  of the entry whose key equals \<open>k\<close>.
\<close>

fun dict_set :: "json \<Rightarrow> 'v \<Rightarrow> (json \<times> 'v) list \<Rightarrow> (json \<times> 'v) list" where
  "dict_set k v [] = [(k, v)]"
| "dict_set k v (e # d) = (if py_key_eq (fst e) k then (fst e, v) # d else e # dict_set k v d)"

fun dict_get :: "(json \<times> 'v) list \<Rightarrow> json \<Rightarrow> 'v option" where
  "dict_get [] k = None"
| "dict_get (e # d) k = (if py_key_eq (fst e) k then Some (snd e) else dict_get d k)"

text \<open>No two entries have equal keys.\<close>

fun keys_distinct :: "(json \<times> 'v) list \<Rightarrow> bool" where
  "keys_distinct [] = True"
| "keys_distinct (e # d) = (list_all (\<lambda>e'. \<not> py_key_eq (fst e) (fst e')) d \<and> keys_distinct d)"

text \<open>
  The indicator map of one record. Every instance is updated with the close price
  and its result is stored under its id; a later store under an id already present
  replaces the value. A list or a dict cannot be a dict key (TypeError).
\<close>

fun hashable :: "json \<Rightarrow> bool" where
  "hashable (JList _) = False"
| "hashable (JObj _) = False"
| "hashable _ = True"

fun update_instances ::
    "(real \<Rightarrow> real) \<Rightarrow> indicator_instance list \<Rightarrow> pyfloat \<Rightarrow> (json \<times> pyfloat option) list \<Rightarrow>
     py_exn + (indicator_instance list \<times> (json \<times> pyfloat option) list)" where
  "update_instances rnd [] v payload = Inr ([], payload)"
| "update_instances rnd (i # is) v payload =
     (case update rnd (impl i) v of
        Inl e \<Rightarrow> Inl e
      | Inr (s, r) \<Rightarrow>
          if \<not> hashable (inst_id i) then Inl TypeError
          else (case update_instances rnd is v (dict_set (inst_id i) r payload) of
                  Inl e \<Rightarrow> Inl e
                | Inr (is', payload') \<Rightarrow> Inr (i\<lparr>impl := s\<rparr> # is', payload')))"

text \<open>
  The body of \<^verbatim>\<open>for row in rows\<close> for one row, with the speed that the control
  listener has left in the shared variable. An exception ends the replay loop.
\<close>

definition emit_row :: "(real \<Rightarrow> real) \<Rightarrow> config \<Rightarrow> session \<Rightarrow> candle \<Rightarrow> session" where
  "emit_row rnd cfg st row =
     (case update_instances rnd (indicator_instances st) (close row) [] of
        Inl e \<Rightarrow> st\<lparr>status := Raised e\<rparr>
      | Inr (insts, payload) \<Rightarrow>
          let msg = CANDLE row (if payload = [] then None else Some payload);
              ts = timestamp row;
              st1 = st\<lparr>indicator_instances := insts, sent := sent st @ [msg]\<rparr>
          in (case last_sent_ts st of
                None \<Rightarrow> st1\<lparr>last_timestamp := Some ts, last_sent_ts := Some ts\<rparr>
              | Some prev \<Rightarrow>
                  (case pacing_delay rnd cfg (py_max (Fin 1) (f_sub rnd ts prev)) (speed st) of
                     Inl e \<Rightarrow> st1\<lparr>status := Raised e\<rparr>
                   | Inr delay_ms \<Rightarrow>
                       st1\<lparr>sent := sent st1 @ [SLEEP_MS delay_ms],
                           last_timestamp := Some ts, last_sent_ts := Some ts\<rparr>)))"

text \<open>
  One message of the control listener. \<^verbatim>\<open>None\<close> is a \<^verbatim>\<open>receive_json\<close> that
  raises (the channel is gone, or the text is not JSON): the listener returns. A
  \<^verbatim>\<open>float\<close> that raises TypeError or ValueError skips the message; any other
  exception ends the listener.
\<close>

definition control_message ::
    "(real \<Rightarrow> real) \<Rightarrow> (string \<Rightarrow> pyfloat option) \<Rightarrow> session \<Rightarrow> json option \<Rightarrow> session" where
  "control_message rnd to_float st message =
     (case message of
        None \<Rightarrow> st\<lparr>listening := False\<rparr>
      | Some (JObj kv) \<Rightarrow>
          if get kv ''type'' = JStr ''SET_SPEED'' then
            (case py_float rnd to_float (get kv ''speed'') of
               Inl e \<Rightarrow> if e = TypeError \<or> e = ValueError then st else st\<lparr>listening := False\<rparr>
             | Inr next_speed \<Rightarrow> st\<lparr>speed := py_max tenth next_speed\<rparr>)
          else if get kv ''type'' = JStr ''PAUSE'' then st\<lparr>paused := True\<rparr>
          else if get kv ''type'' = JStr ''PLAY'' then st\<lparr>paused := False\<rparr>
          else st
      | Some _ \<Rightarrow> st)"

text \<open>
  The two tasks interleave at their awaits. An event is one step of one of them:
  the control listener receives a message; the replay loop passes the head of
  \<^verbatim>\<open>while True\<close>, where the rows are what \<^verbatim>\<open>fetch_candles\<close> returns if it is
  called; the loop handles the next row of its batch; or the channel disconnects
  under the replay loop, which then returns and cancels the listener.
\<close>

datatype event =
  Receive "json option"
  | Cycle "candle list"
  | Emit
  | Disconnect

definition step ::
    "(real \<Rightarrow> real) \<Rightarrow> config \<Rightarrow> (string \<Rightarrow> pyfloat option) \<Rightarrow> session \<Rightarrow> event \<Rightarrow> session" where
  "step rnd cfg to_float st ev =
     (if status st \<noteq> Running then st
      else case ev of
        Receive message \<Rightarrow>
          if listening st then control_message rnd to_float st message else st
      | Cycle rows \<Rightarrow>
          if pending st \<noteq> [] \<or> paused st then st else st\<lparr>pending := rows\<rparr>
      | Emit \<Rightarrow>
          (case pending st of
             [] \<Rightarrow> st
           | row # rest \<Rightarrow> emit_row rnd cfg (st\<lparr>pending := rest\<rparr>) row)
      | Disconnect \<Rightarrow> st\<lparr>status := Disconnected, listening := False\<rparr>)"

definition run ::
    "(real \<Rightarrow> real) \<Rightarrow> config \<Rightarrow> (string \<Rightarrow> pyfloat option) \<Rightarrow> session \<Rightarrow> event list \<Rightarrow> session" where
  "run rnd cfg to_float st evs = foldl (step rnd cfg to_float) st evs"

text \<open>
  What the query of \<^verbatim>\<open>fetch_candles\<close> promises for a fetch made with the cursor
  of \<open>st\<close>: ascending timestamps (\<^verbatim>\<open>ORDER BY timestamp ASC\<close>), none before the
  cursor when there is one (\<^verbatim>\<open>timestamp > to_timestamp(%s / 1000.0)\<close>; a row at
  the cursor itself is allowed here, the conversions between milliseconds and
  timestamps being inexact).
\<close>

definition ts_le :: "pyfloat \<Rightarrow> pyfloat \<Rightarrow> bool" where
  "ts_le a b = (a = b \<or> f_lt a b)"

definition fetch_ok :: "session \<Rightarrow> candle list \<Rightarrow> bool" where
  "fetch_ok st rows =
     (sorted_wrt ts_le (map timestamp rows) \<and>
      (case last_timestamp st of
         None \<Rightarrow> True
       | Some c \<Rightarrow> list_all (\<lambda>r. ts_le c (timestamp r)) rows))"

text \<open>Every fetch of a run answers within the contract.\<close>

fun fetches_ok ::
    "(real \<Rightarrow> real) \<Rightarrow> config \<Rightarrow> (string \<Rightarrow> pyfloat option) \<Rightarrow> session \<Rightarrow> event list \<Rightarrow> bool" where
  "fetches_ok rnd cfg to_float st [] = True"
| "fetches_ok rnd cfg to_float st (ev # evs) =
     ((case ev of Cycle rows \<Rightarrow> fetch_ok st rows | _ \<Rightarrow> True) \<and>
      fetches_ok rnd cfg to_float (step rnd cfg to_float st ev) evs)"

text \<open>The order of two cursor values; an absent cursor is below every other.\<close>

fun cursor_le :: "pyfloat option \<Rightarrow> pyfloat option \<Rightarrow> bool" where
  "cursor_le None _ = True"
| "cursor_le (Some a) None = False"
| "cursor_le (Some a) (Some b) = ts_le a b"

text \<open>A run in which the replay loop does not pass the head of its loop.\<close>

fun is_cycle :: "event \<Rightarrow> bool" where
  "is_cycle (Cycle rows) = True"
| "is_cycle _ = False"

definition no_cycle :: "event list \<Rightarrow> bool" where
  "no_cycle evs = list_all (\<lambda>ev. \<not> is_cycle ev) evs"

text \<open>
  The rows still to be handled are in ascending order and none is before the
  cursor.
\<close>

definition pending_ok :: "session \<Rightarrow> bool" where
  "pending_ok st =
     (sorted_wrt ts_le (map timestamp (pending st)) \<and>
      (case last_timestamp st of
         None \<Rightarrow> True
       | Some c \<Rightarrow> list_all (\<lambda>r. ts_le c (timestamp r)) (pending st)))"

text \<open>
  While a batch is being handled, the row that will leave the cursor at the end is
  the last row of the batch.
\<close>

definition batch_inv :: "candle list \<Rightarrow> session \<Rightarrow> bool" where
  "batch_inv rows st =
     (status st \<noteq> Running
      \<or> (pending st = [] \<and> last_timestamp st = Some (timestamp (last rows)))
      \<or> (pending st \<noteq> [] \<and> last (pending st) = last rows))"

text \<open>Sample data for instantiating the theorems: a candle, a session, a message.\<close>

definition sample_candle :: "real \<Rightarrow> candle" where
  "sample_candle t =
     \<lparr>timestamp = Fin t, symbol = ''BTC'', timeframe = ''15m'', dataset_id = None,
      open_px = Fin 10, high = Fin 12, low = Fin 9, close = Fin 11, volume = Fin 100\<rparr>"

definition sample_session :: session where
  "sample_session =
     \<lparr>sym = ''BTC'', tf = ''15m'', dataset = None, batch_size = 500, speed = Fin 1,
      paused = False, last_sent_ts = None, last_timestamp = Some (Fin 500),
      indicator_instances = [], listening = True, pending = [], sent = [],
      status = Running\<rparr>"

definition set_speed :: "json \<Rightarrow> json" where
  "set_speed v = JObj [(''type'', JStr ''SET_SPEED''), (''speed'', v)]"

text \<open>An SMA spec with an id and a period, and the instance it registers.\<close>

definition sample_spec :: "json \<Rightarrow> int \<Rightarrow> json" where
  "sample_spec i p =
     JObj [(''type'', JStr ''sma''), (''id'', i), (''params'', JObj [(''period'', JInt p)])]"

definition sample_instance :: "json \<Rightarrow> int \<Rightarrow> indicator_instance" where
  "sample_instance i p = \<lparr>inst_id = i, warmup = p - 1, impl = SimpleMovingAverage p\<rparr>"

definition updated_instance :: "json \<Rightarrow> int \<Rightarrow> pyfloat \<Rightarrow> indicator_instance" where
  "updated_instance i p v =
     \<lparr>inst_id = i, warmup = p - 1, impl = \<lparr>period = p, window = [v], sum_acc = v\<rparr>\<rparr>"

section \<open>Evaluating the binary64 rounding\<close>

text \<open>
  The exponent search of \<open>b64\<close> returns the exponent that puts the argument between
  \<open>2 ^ 52\<close> and \<open>2 ^ 53\<close>, so a value of \<open>b64\<close> is found by naming that exponent;
  a positive integer below \<open>2 ^ 53\<close> is its own rounding.
\<close>

lemma powi_step_down: "(2::real) * y * 2 powi (e - 1 - e') = y * 2 powi (e - e')"
proof -
  have "(2::real) powi (e - e') = 2 powi (e - 1 - e' + 1)" by simp
  also have "\<dots> = 2 powi (e - 1 - e') * 2" by (subst power_int_add) simp_all
  finally show ?thesis by simp
qed

lemma powi_step_up: "y / 2 * (2::real) powi (e + 1 - e') = y * 2 powi (e - e')"
proof -
  have "(2::real) powi (e + 1 - e') = 2 powi (e - e' + 1)" by (simp add: algebra_simps)
  also have "\<dots> = 2 powi (e - e') * 2" by (subst power_int_add) simp_all
  finally show ?thesis by simp
qed

lemma ulp_exp_unique:
  "0 < y \<Longrightarrow> 4503599627370496 \<le> y * 2 powi (e - e') \<Longrightarrow> y * 2 powi (e - e') < 9007199254740992
   \<Longrightarrow> nat \<bar>e - e'\<bar> \<le> n \<Longrightarrow> - 1074 \<le> e' \<Longrightarrow> ulp_exp n y e = e'"
proof (induction n arbitrary: y e)
  case 0
  then show ?case by simp
next
  case (Suc n)
  show ?case
  proof (cases "y < 4503599627370496")
    case True
    have "e' < e"
    proof (rule ccontr)
      assume "\<not> e' < e"
      then have "e - e' \<le> 0" by simp
      then have "(2::real) powi (e - e') \<le> 2 powi 0"
        by (intro power_int_increasing) simp_all
      then have "(2::real) powi (e - e') \<le> 1" by simp
      then have "y * 2 powi (e - e') \<le> y" using Suc.prems(1)
        by (simp add: mult_left_le)
      with True Suc.prems(2) show False by linarith
    qed
    with Suc.prems have c: "- 1074 < e" and n: "nat \<bar>e - 1 - e'\<bar> \<le> n" by linarith+
    have "ulp_exp n (2 * y) (e - 1) = e'"
    proof (rule Suc.IH)
      show "0 < 2 * y" using Suc.prems(1) by simp
      show "4503599627370496 \<le> 2 * y * 2 powi (e - 1 - e')"
        unfolding powi_step_down by (rule Suc.prems(2))
      show "2 * y * 2 powi (e - 1 - e') < 9007199254740992"
        unfolding powi_step_down by (rule Suc.prems(3))
      show "nat \<bar>e - 1 - e'\<bar> \<le> n" by (rule n)
      show "- 1074 \<le> e'" by (rule Suc.prems(5))
    qed
    with True c show ?thesis by simp
  next
    case False
    show ?thesis
    proof (cases "9007199254740992 \<le> y")
      case True
      have "e < e'"
      proof (rule ccontr)
        assume "\<not> e < e'"
        then have "0 \<le> e - e'" by simp
        then have "1 \<le> (2::real) powi (e - e')"
          by (intro one_le_power_int) simp_all
        then have "y \<le> y * 2 powi (e - e')" using Suc.prems(1)
          by (simp add: mult_le_cancel_left1)
        with True Suc.prems(3) show False by linarith
      qed
      with Suc.prems have n: "nat \<bar>e + 1 - e'\<bar> \<le> n" by linarith
      have "ulp_exp n (y / 2) (e + 1) = e'"
      proof (rule Suc.IH)
        show "0 < y / 2" using Suc.prems(1) by simp
        show "4503599627370496 \<le> y / 2 * 2 powi (e + 1 - e')"
          unfolding powi_step_up by (rule Suc.prems(2))
        show "y / 2 * 2 powi (e + 1 - e') < 9007199254740992"
          unfolding powi_step_up by (rule Suc.prems(3))
        show "nat \<bar>e + 1 - e'\<bar> \<le> n" by (rule n)
        show "- 1074 \<le> e'" by (rule Suc.prems(5))
      qed
      with True False show ?thesis by simp
    next
      case b: False
      have "e = e'"
      proof (rule ccontr)
        assume ne: "e \<noteq> e'"
        show False
        proof (cases "e < e'")
          case True
          then have "e - e' \<le> - 1" by simp
          then have "(2::real) powi (e - e') \<le> 2 powi (- 1)"
            by (intro power_int_increasing) simp_all
          then have "(2::real) powi (e - e') \<le> 1 / 2" by (simp add: power_int_minus)
          then have "y * 2 powi (e - e') \<le> y * (1 / 2)" using Suc.prems(1)
            by (intro mult_left_mono) simp_all
          with b Suc.prems(2) show False by linarith
        next
          case False
          with ne have "1 \<le> e - e'" by simp
          then have "(2::real) powi 1 \<le> 2 powi (e - e')"
            by (intro power_int_increasing) simp_all
          then have "y * 2 \<le> y * 2 powi (e - e')" using Suc.prems(1)
            by (intro mult_left_mono) simp_all
          with \<open>\<not> y < 4503599627370496\<close> Suc.prems(3) show False by linarith
        qed
      qed
      with False b show ?thesis by simp
    qed
  qed
qed

lemma b64_pos_eval:
  assumes "0 < x" "4503599627370496 \<le> x * 2 powi (- e)" "x * 2 powi (- e) < 9007199254740992"
    and "- 1074 \<le> e" "e \<le> 2200"
  shows "b64 x = of_int (rne (x * 2 powi (- e))) * 2 powi e"
proof -
  have "nat \<bar>0 - e\<bar> \<le> 2200" using assms(4,5) by linarith
  then have "ulp_exp 2200 x 0 = e"
    using assms by (intro ulp_exp_unique) simp_all
  then show ?thesis unfolding b64_def Let_def using assms(1) by simp
qed

lemma b64_0: "b64 0 = 0"
  by (simp add: b64_def)

lemma b64_minus: "b64 (- x) = - b64 x"
  by (simp add: b64_def sgn_minus Let_def)

lemma rne_of_int: "rne (of_int m) = m"
  by (simp add: rne_def)

lemma scale_to_53_bits:
  "2 ^ (52 - j) \<le> n \<Longrightarrow> n < 9007199254740992 \<Longrightarrow> j \<le> 52 \<Longrightarrow>
   \<exists>k\<le>j. (4503599627370496::int) \<le> n * 2 ^ k \<and> n * 2 ^ k < 9007199254740992"
proof (induction j arbitrary: n)
  case 0
  then have "4503599627370496 \<le> n * 2 ^ 0" by simp
  with 0 show ?case by auto
next
  case (Suc j)
  show ?case
  proof (cases "4503599627370496 \<le> n")
    case True
    with Suc.prems(2) have "4503599627370496 \<le> n * 2 ^ 0 \<and> n * 2 ^ 0 < 9007199254740992"
      by simp
    then show ?thesis by blast
  next
    case False
    have "52 - j = Suc (52 - Suc j)" using Suc.prems(3) by simp
    then have "(2::int) ^ (52 - j) = 2 * 2 ^ (52 - Suc j)" by (simp only: power_Suc)
    then have 1: "2 ^ (52 - j) \<le> 2 * n" using Suc.prems(1) by simp
    have 2: "2 * n < 9007199254740992" using False by simp
    have 3: "j \<le> 52" using Suc.prems(3) by simp
    from Suc.IH[OF 1 2 3] obtain k where
      k: "k \<le> j" "4503599627370496 \<le> 2 * n * 2 ^ k" "2 * n * 2 ^ k < 9007199254740992"
      by blast
    have "2 * n * 2 ^ k = n * 2 ^ Suc k" by simp
    with k have "Suc k \<le> Suc j \<and> 4503599627370496 \<le> n * 2 ^ Suc k
        \<and> n * 2 ^ Suc k < 9007199254740992"
      by simp
    then show ?thesis by blast
  qed
qed

lemma b64_of_int_pos:
  assumes "0 < n" "n < 9007199254740992"
  shows "b64 (of_int n) = of_int n"
proof -
  from assms have "2 ^ (52 - 52) \<le> n" by simp
  from scale_to_53_bits[OF this assms(2)] obtain k where
    k: "k \<le> 52" "4503599627370496 \<le> n * 2 ^ k" "n * 2 ^ k < 9007199254740992" by auto
  have sc: "real_of_int n * 2 powi (- (- int k)) = of_int (n * 2 ^ k)"
    by (simp add: power_int_def)
  have "real_of_int 4503599627370496 \<le> real_of_int (n * 2 ^ k)"
    using k(2) by (simp only: of_int_le_iff)
  then have lo: "4503599627370496 \<le> real_of_int (n * 2 ^ k)" by simp
  have "real_of_int (n * 2 ^ k) < real_of_int 9007199254740992"
    using k(3) by (simp only: of_int_less_iff)
  then have hi: "real_of_int (n * 2 ^ k) < 9007199254740992" by simp
  have pos: "0 < real_of_int n" using assms(1) by simp
  have e1: "- 1074 \<le> - int k" using k(1) by simp
  have e2: "- int k \<le> 2200" by simp
  have "b64 (of_int n) = of_int (rne (of_int n * 2 powi (- (- int k)))) * 2 powi (- int k)"
    using pos lo hi e1 e2 unfolding sc[symmetric] by (rule b64_pos_eval)
  also have "\<dots> = of_int (n * 2 ^ k) * 2 powi (- int k)"
    unfolding sc rne_of_int ..
  also have "\<dots> = of_int n"
    by (simp add: power_int_def field_simps)
  finally show ?thesis .
qed

lemma b64_numeral: "(numeral w :: int) < 9007199254740992 \<Longrightarrow> b64 (numeral w) = numeral w"
  using b64_of_int_pos[of "numeral w"] by simp

lemma b64_1: "b64 1 = 1"
  using b64_of_int_pos[of 1] by simp

lemma b64_two_53: "b64 9007199254740992 = 9007199254740992"
  by (subst b64_pos_eval[where e = 1]) (simp_all add: rne_def)

lemma b64_two_53_plus_1: "b64 9007199254740993 = 9007199254740992"
  by (subst b64_pos_eval[where e = 1]) (simp_all add: rne_def)

lemma b64_tenth: "b64 (1 / 10) = 3602879701896397 / 36028797018963968"
  by (subst b64_pos_eval[where e = "- 56"]) (simp_all add: rne_def)

lemma b64_fifth: "b64 (1 / 5) = 3602879701896397 / 18014398509481984"
  by (subst b64_pos_eval[where e = "- 55"]) (simp_all add: rne_def)

lemmas b64_evals =
  b64_0 b64_1 b64_minus b64_numeral b64_two_53 b64_two_53_plus_1 b64_tenth b64_fifth

subsection \<open>The binary64 rounding is monotone\<close>

lemma rne_bounds: "of_int (rne x) \<le> x + 1 / 2 \<and> x - 1 / 2 \<le> of_int (rne x)"
  unfolding rne_def Let_def by (auto; linarith)

lemma rne_floor_cases: "rne x = \<lfloor>x\<rfloor> \<or> rne x = \<lfloor>x\<rfloor> + 1"
  unfolding rne_def Let_def by auto

lemma rne_mono:
  assumes "a \<le> b"
  shows "rne a \<le> rne b"
proof (cases "\<lfloor>a\<rfloor> = \<lfloor>b\<rfloor>")
  case True
  have "a - of_int \<lfloor>a\<rfloor> \<le> b - of_int \<lfloor>b\<rfloor>" using assms True by simp
  then show ?thesis unfolding rne_def Let_def using True by auto
next
  case False
  have "\<lfloor>a\<rfloor> \<le> \<lfloor>b\<rfloor>" using assms by (rule floor_mono)
  with False have "\<lfloor>a\<rfloor> + 1 \<le> \<lfloor>b\<rfloor>" by simp
  moreover have "rne a \<le> \<lfloor>a\<rfloor> + 1" using rne_floor_cases[of a] by auto
  moreover have "\<lfloor>b\<rfloor> \<le> rne b" using rne_floor_cases[of b] by auto
  ultimately show ?thesis by linarith
qed

lemma ulp_exp_noup: "y < 9007199254740992 \<Longrightarrow> 0 < y \<Longrightarrow> ulp_exp n y e \<le> e"
proof (induction n arbitrary: y e)
  case 0
  then show ?case by simp
next
  case (Suc n)
  show ?case
  proof (cases "y < 4503599627370496 \<and> - 1074 < e")
    case True
    then have "2 * y < 9007199254740992" by simp
    from Suc.IH[OF this, of "e - 1"] Suc.prems(2) have "ulp_exp n (2 * y) (e - 1) \<le> e - 1" by simp
    with True show ?thesis by simp
  next
    case False
    with Suc.prems(1) show ?thesis by auto
  qed
qed

lemma ulp_exp_nodown: "4503599627370496 \<le> y \<Longrightarrow> e \<le> ulp_exp n y e"
proof (induction n arbitrary: y e)
  case 0
  then show ?case by simp
next
  case (Suc n)
  show ?case
  proof (cases "9007199254740992 \<le> y")
    case True
    then have "4503599627370496 \<le> y / 2" by simp
    from Suc.IH[OF this, of "e + 1"] have "e + 1 \<le> ulp_exp n (y / 2) (e + 1)" .
    with True Suc.prems show ?thesis by simp
  next
    case False
    with Suc.prems show ?thesis by simp
  qed
qed

lemma ulp_exp_mono: "0 < y \<Longrightarrow> y \<le> y' \<Longrightarrow> ulp_exp n y e \<le> ulp_exp n y' e"
proof (induction n arbitrary: y y' e)
  case 0
  then show ?case by simp
next
  case (Suc n)
  have y': "0 < y'" using Suc.prems by linarith
  show ?case
  proof (cases "y < 4503599627370496 \<and> - 1074 < e")
    case down: True
    then have l: "ulp_exp (Suc n) y e = ulp_exp n (2 * y) (e - 1)" by simp
    have "2 * y < 9007199254740992" using down by simp
    then have le: "ulp_exp n (2 * y) (e - 1) \<le> e - 1"
      using Suc.prems(1) by (intro ulp_exp_noup) simp_all
    show ?thesis
    proof (cases "y' < 4503599627370496")
      case True
      then have "ulp_exp (Suc n) y' e = ulp_exp n (2 * y') (e - 1)" using down by simp
      moreover have "ulp_exp n (2 * y) (e - 1) \<le> ulp_exp n (2 * y') (e - 1)"
        using Suc.prems by (intro Suc.IH) simp_all
      ultimately show ?thesis using l by simp
    next
      case False
      then have "e \<le> ulp_exp (Suc n) y' e" by (intro ulp_exp_nodown) simp
      with le l show ?thesis by linarith
    qed
  next
    case nd: False
    show ?thesis
    proof (cases "9007199254740992 \<le> y")
      case True
      then have "9007199254740992 \<le> y'" using Suc.prems(2) by linarith
      then have r: "ulp_exp (Suc n) y' e = ulp_exp n (y' / 2) (e + 1)" by simp
      have l: "ulp_exp (Suc n) y e = ulp_exp n (y / 2) (e + 1)" using True by simp
      have "ulp_exp n (y / 2) (e + 1) \<le> ulp_exp n (y' / 2) (e + 1)"
        using Suc.prems by (intro Suc.IH) simp_all
      with l r show ?thesis by simp
    next
      case False
      then have l: "ulp_exp (Suc n) y e = e" using nd by auto
      show ?thesis
      proof (cases "y' < 4503599627370496")
        case True
        then have "y < 4503599627370496" using Suc.prems(2) by linarith
        with nd have "\<not> - 1074 < e" by simp
        with True have "ulp_exp (Suc n) y' e = e" by auto
        with l show ?thesis by simp
      next
        case False
        then have "e \<le> ulp_exp (Suc n) y' e" by (intro ulp_exp_nodown) simp
        with l show ?thesis by simp
      qed
    qed
  qed
qed

lemma ulp_exp_floor: "- 1074 \<le> e \<Longrightarrow> - 1074 \<le> ulp_exp n y e"
proof (induction n arbitrary: y e)
  case 0
  then show ?case by simp
next
  case (Suc n)
  show ?case
  proof (cases "y < 4503599627370496 \<and> - 1074 < e")
    case True
    then have "- 1074 \<le> e - 1" by simp
    from Suc.IH[OF this, of "2 * y"] True show ?thesis by simp
  next
    case False
    have "- 1074 \<le> e + 1" using Suc.prems by simp
    from Suc.IH[OF this, of "y / 2"] False Suc.prems show ?thesis by auto
  qed
qed

lemma ulp_exp_scaled_lo:
  "0 < y \<Longrightarrow> 4503599627370496 \<le> y \<or> e + 1074 \<le> int n \<Longrightarrow> - 1074 \<le> e \<Longrightarrow>
   - 1074 < ulp_exp n y e \<Longrightarrow> 4503599627370496 \<le> y * 2 powi (e - ulp_exp n y e)"
proof (induction n arbitrary: y e)
  case 0
  then show ?case by auto
next
  case (Suc n)
  show ?case
  proof (cases "y < 4503599627370496 \<and> - 1074 < e")
    case True
    then have u: "ulp_exp (Suc n) y e = ulp_exp n (2 * y) (e - 1)" by simp
    have "4503599627370496 \<le> 2 * y * 2 powi (e - 1 - ulp_exp n (2 * y) (e - 1))"
    proof (rule Suc.IH)
      show "0 < 2 * y" using Suc.prems(1) by simp
      show "4503599627370496 \<le> 2 * y \<or> e - 1 + 1074 \<le> int n" using Suc.prems(2) True by auto
      show "- 1074 \<le> e - 1" using True by simp
      show "- 1074 < ulp_exp n (2 * y) (e - 1)" using Suc.prems(4) u by simp
    qed
    then show ?thesis unfolding u powi_step_down .
  next
    case nd: False
    show ?thesis
    proof (cases "9007199254740992 \<le> y")
      case True
      then have u: "ulp_exp (Suc n) y e = ulp_exp n (y / 2) (e + 1)" by simp
      have "4503599627370496 \<le> y / 2 * 2 powi (e + 1 - ulp_exp n (y / 2) (e + 1))"
      proof (rule Suc.IH)
        show "0 < y / 2" using Suc.prems(1) by simp
        show "4503599627370496 \<le> y / 2 \<or> e + 1 + 1074 \<le> int n" using True by simp
        show "- 1074 \<le> e + 1" using Suc.prems(3) by simp
        show "- 1074 < ulp_exp n (y / 2) (e + 1)" using Suc.prems(4) u by simp
      qed
      then show ?thesis unfolding u powi_step_up .
    next
      case False
      then have u: "ulp_exp (Suc n) y e = e" using nd by auto
      with Suc.prems(4) have "- 1074 < e" by simp
      with nd have "4503599627370496 \<le> y" by auto
      then show ?thesis unfolding u by simp
    qed
  qed
qed

lemma ulp_exp_scaled_hi:
  "0 < y \<Longrightarrow> y < 9007199254740992 \<or> ulp_exp n y e < e + int n \<Longrightarrow>
   y * 2 powi (e - ulp_exp n y e) < 9007199254740992"
proof (induction n arbitrary: y e)
  case 0
  then show ?case by auto
next
  case (Suc n)
  show ?case
  proof (cases "y < 4503599627370496 \<and> - 1074 < e")
    case True
    then have u: "ulp_exp (Suc n) y e = ulp_exp n (2 * y) (e - 1)" by simp
    have "2 * y * 2 powi (e - 1 - ulp_exp n (2 * y) (e - 1)) < 9007199254740992"
    proof (rule Suc.IH)
      show "0 < 2 * y" using Suc.prems(1) by simp
      show "2 * y < 9007199254740992 \<or> ulp_exp n (2 * y) (e - 1) < e - 1 + int n"
        using True by simp
    qed
    then show ?thesis unfolding u powi_step_down .
  next
    case nd: False
    show ?thesis
    proof (cases "9007199254740992 \<le> y")
      case True
      then have u: "ulp_exp (Suc n) y e = ulp_exp n (y / 2) (e + 1)" by simp
      have "y / 2 * 2 powi (e + 1 - ulp_exp n (y / 2) (e + 1)) < 9007199254740992"
      proof (rule Suc.IH)
        show "0 < y / 2" using Suc.prems(1) by simp
        show "y / 2 < 9007199254740992 \<or> ulp_exp n (y / 2) (e + 1) < e + 1 + int n"
          using Suc.prems(2) True u by auto
      qed
      then show ?thesis unfolding u powi_step_up .
    next
      case False
      then have u: "ulp_exp (Suc n) y e = e" using nd by auto
      show ?thesis unfolding u using False by simp
    qed
  qed
qed

lemma ulp_exp_upper: "ulp_exp n y e \<le> e + int n"
proof (induction n arbitrary: y e)
  case 0
  then show ?case by simp
next
  case (Suc n)
  from Suc.IH[of "2 * y" "e - 1"] Suc.IH[of "y / 2" "e + 1"] show ?case by auto
qed

lemma b64_pos_form:
  "0 < x \<Longrightarrow> b64 x = of_int (rne (x * 2 powi (- ulp_exp 2200 x 0))) * 2 powi (ulp_exp 2200 x 0)"
  by (simp add: b64_def Let_def)

lemma rne_0: "rne 0 = 0"
  using rne_of_int[of 0] by simp

lemma b64_nonneg:
  assumes "0 \<le> x"
  shows "0 \<le> b64 x"
proof (cases "x = 0")
  case True
  then show ?thesis by (simp add: b64_0)
next
  case False
  with assms have pos: "0 < x" by simp
  define e where "e = ulp_exp 2200 x 0"
  have "0 \<le> x * 2 powi (- e)" using pos by simp
  then have "rne 0 \<le> rne (x * 2 powi (- e))" by (rule rne_mono)
  then have "0 \<le> real_of_int (rne (x * 2 powi (- e)))" by (simp add: rne_0)
  then have "0 \<le> real_of_int (rne (x * 2 powi (- e))) * 2 powi e" by simp
  then show ?thesis unfolding b64_pos_form[OF pos] e_def .
qed

lemma b64_mono_pos:
  assumes "0 < x" "x \<le> y"
  shows "b64 x \<le> b64 y"
proof -
  define ex where "ex = ulp_exp 2200 x 0"
  define ey where "ey = ulp_exp 2200 y 0"
  have ypos: "0 < y" using assms by linarith
  have fx: "b64 x = of_int (rne (x * 2 powi (- ex))) * 2 powi ex"
    unfolding ex_def using assms(1) by (rule b64_pos_form)
  have fy: "b64 y = of_int (rne (y * 2 powi (- ey))) * 2 powi ey"
    unfolding ey_def using ypos by (rule b64_pos_form)
  have le: "ex \<le> ey" unfolding ex_def ey_def using assms by (rule ulp_exp_mono)
  show ?thesis
  proof (cases "ex = ey")
    case True
    have "x * 2 powi (- ex) \<le> y * 2 powi (- ex)"
      using assms(2) by (intro mult_right_mono) simp_all
    then have "rne (x * 2 powi (- ex)) \<le> rne (y * 2 powi (- ex))" by (rule rne_mono)
    then have "real_of_int (rne (x * 2 powi (- ex))) \<le> real_of_int (rne (y * 2 powi (- ex)))"
      by simp
    then have "real_of_int (rne (x * 2 powi (- ex))) * 2 powi ex
        \<le> real_of_int (rne (y * 2 powi (- ex))) * 2 powi ex"
      by (intro mult_right_mono) simp_all
    then show ?thesis unfolding fx fy True .
  next
    case False
    with le have lt: "ex < ey" by simp
    have "ey \<le> 0 + int 2200" unfolding ey_def by (rule ulp_exp_upper)
    with lt have "ulp_exp 2200 x 0 < 0 + int 2200" unfolding ex_def by simp
    then have "x * 2 powi (0 - ulp_exp 2200 x 0) < 9007199254740992"
      using assms(1) by (intro ulp_exp_scaled_hi) simp_all
    then have "x * 2 powi (- ex) \<le> real_of_int 9007199254740992" unfolding ex_def by simp
    then have "rne (x * 2 powi (- ex)) \<le> rne (real_of_int 9007199254740992)" by (rule rne_mono)
    then have "rne (x * 2 powi (- ex)) \<le> 9007199254740992" unfolding rne_of_int .
    then have "real_of_int (rne (x * 2 powi (- ex))) \<le> 9007199254740992" by linarith
    then have hi: "real_of_int (rne (x * 2 powi (- ex))) * 2 powi ex \<le> 9007199254740992 * 2 powi ex"
      by (intro mult_right_mono) simp_all
    have "ex + 1 \<le> ey" using lt by simp
    then have "(2::real) powi (ex + 1) \<le> 2 powi ey" by (intro power_int_increasing) simp_all
    moreover have "(2::real) powi (ex + 1) = 2 powi ex * 2" by (subst power_int_add) simp_all
    ultimately have mid: "(9007199254740992::real) * 2 powi ex \<le> 4503599627370496 * 2 powi ey"
      by simp
    have "- 1074 \<le> ex" unfolding ex_def by (intro ulp_exp_floor) simp
    with lt have "- 1074 < ulp_exp 2200 y 0" unfolding ey_def by simp
    then have "4503599627370496 \<le> y * 2 powi (0 - ulp_exp 2200 y 0)"
      using ypos by (intro ulp_exp_scaled_lo) simp_all
    then have "real_of_int 4503599627370496 \<le> y * 2 powi (- ey)" unfolding ey_def by simp
    then have "rne (real_of_int 4503599627370496) \<le> rne (y * 2 powi (- ey))" by (rule rne_mono)
    then have "4503599627370496 \<le> rne (y * 2 powi (- ey))" unfolding rne_of_int .
    then have "4503599627370496 \<le> real_of_int (rne (y * 2 powi (- ey)))" by linarith
    then have lo: "4503599627370496 * 2 powi ey \<le> real_of_int (rne (y * 2 powi (- ey))) * 2 powi ey"
      by (intro mult_right_mono) simp_all
    from hi mid lo show ?thesis unfolding fx fy by linarith
  qed
qed

lemma mono_b64: "mono b64"
proof (rule monoI)
  fix x y :: real
  assume le: "x \<le> y"
  show "b64 x \<le> b64 y"
  proof (cases "0 < x")
    case True
    then show ?thesis using le by (rule b64_mono_pos)
  next
    case False
    then have x: "x \<le> 0" by simp
    show ?thesis
    proof (cases "0 \<le> y")
      case True
      have "0 \<le> b64 (- x)" using x by (intro b64_nonneg) simp
      then have "b64 x \<le> 0" using b64_minus[of x] by simp
      moreover have "0 \<le> b64 y" using True by (rule b64_nonneg)
      ultimately show ?thesis by linarith
    next
      case False
      then have "0 < - y" "- y \<le> - x" using le by simp_all
      then have "b64 (- y) \<le> b64 (- x)" by (rule b64_mono_pos)
      then show ?thesis by (simp add: b64_minus)
    qed
  qed
qed

section \<open>Properties of SimpleMovingAverage\<close>

lemma f_div_pos: "0 < y \<Longrightarrow> \<exists>q. f_div rnd a (Fin y) = Inr q"
  by (cases a) auto

lemma lastn_append1_short: "length w < k \<Longrightarrow> lastn k (w @ [v]) = w @ [v]"
  by (simp add: lastn_def)

lemma lastn_append1_full: "length w = k \<Longrightarrow> lastn k (w @ [v]) = tl (w @ [v])"
  by (cases w) (simp_all add: lastn_def)

lemma update_step:
  assumes "sma_ok s"
  shows "\<exists>s' r. update rnd s v = Inr (s', r) \<and> sma_ok s' \<and> period s' = period s
     \<and> window s' = lastn (nat (period s)) (window s @ [v])
     \<and> (if int (length (window s)) + 1 < period s then r = None
         else \<exists>q. f_div rnd (sum_acc s') (Fin (real_of_int (period s))) = Inr q \<and> r = Some q)"
proof (cases "int (length (window s)) = period s")
  case True
  then have n: "length (window s) = nat (period s)" by simp
  from assms True obtain q where q: "f_div rnd (f_sub rnd (f_add rnd (sum_acc s) v) (hd (window s @ [v]))) (Fin (real_of_int (period s))) = Inr q"
    using f_div_pos[of "real_of_int (period s)"] by (auto simp: sma_ok_def)
  have len: "length (tl (window s @ [v])) = nat (period s)" using n by simp
  show ?thesis using True assms q n
    by (simp add: update_def Let_def sma_ok_def lastn_append1_full del: f_div.simps)
next
  case False
  with assms have lt: "int (length (window s)) < period s" by (simp add: sma_ok_def)
  then have n: "length (window s) < nat (period s)" by simp
  obtain q where q: "f_div rnd (f_add rnd (sum_acc s) v) (Fin (real_of_int (period s))) = Inr q"
    using f_div_pos[of "real_of_int (period s)"] assms by (auto simp: sma_ok_def)
  show ?thesis
  proof (cases "int (length (window s)) + 1 < period s")
    case True
    then show ?thesis using lt n assms
      by (simp add: update_def Let_def sma_ok_def lastn_append1_short del: f_div.simps)
  next
    case False
    with lt have eq: "period s = int (length (window s)) + 1" by simp
    have re: "real_of_int (period s) = 1 + real (length (window s))"
      by (simp add: eq)
    show ?thesis using lt n assms q
      by (simp add: update_def Let_def sma_ok_def lastn_append1_short re del: f_div.simps)
  qed
qed


lemma lastn_lastn_append: "lastn k (lastn k xs @ ys) = lastn k (xs @ ys)"
proof (cases "length xs \<le> k")
  case True
  then show ?thesis by (simp add: lastn_def)
next
  case False
  then have "length xs - k + k = length xs" by simp
  with False show ?thesis by (simp add: lastn_def add.commute)
qed

lemma length_lastn: "length (lastn k xs) = min k (length xs)"
  by (simp add: lastn_def)

lemma sma_ok_init: "sma_ok (SimpleMovingAverage p)"
  by (simp add: sma_ok_def SimpleMovingAverage_def)

lemma feed_inv:
  "sma_ok s \<Longrightarrow> \<exists>s' rs. feed rnd s vs = Inr (s', rs) \<and> sma_ok s' \<and> period s' = period s
     \<and> window s' = lastn (nat (period s)) (window s @ vs) \<and> length rs = length vs"
proof (induction vs arbitrary: s)
  case Nil
  then have "length (window s) - nat (period s) = 0" unfolding sma_ok_def by linarith
  with Nil show ?case by (simp add: lastn_def)
next
  case (Cons v vs)
  from update_step[OF Cons.prems, of rnd v] obtain s1 r where
    u: "update rnd s v = Inr (s1, r)" and ok: "sma_ok s1" and p: "period s1 = period s"
    and w: "window s1 = lastn (nat (period s)) (window s @ [v])" by blast
  from Cons.IH[OF ok] obtain s2 rs where
    f: "feed rnd s1 vs = Inr (s2, rs)" and ok2: "sma_ok s2" and p2: "period s2 = period s1"
    and w2: "window s2 = lastn (nat (period s1)) (window s1 @ vs)" and l: "length rs = length vs"
    by blast
  show ?case using u f ok2 p p2 w w2 l by (simp add: lastn_lastn_append)
qed

lemma update_exact:
  assumes "sma_ok s" "exact_sum s" "update (\<lambda>x. x) s (Fin x) = Inr (s', r)"
  shows "exact_sum s'"
proof -
  from assms(2) obtain xs where w: "window s = map Fin xs" and a: "sum_acc s = Fin (sum_list xs)"
    by (auto simp: exact_sum_def)
  show ?thesis
  proof (cases "period s < int (length (window s @ [Fin x]))")
    case True
    then have ne: "xs \<noteq> []" using assms(1) w by (auto simp: sma_ok_def)
    then obtain y ys where xs: "xs = y # ys" by (cases xs) auto
    have "window s' = map Fin (ys @ [x])" "sum_acc s' = Fin (sum_list (ys @ [x]))"
      using assms(3) True w a xs
      by (auto simp: update_def Let_def f_sub_def split: if_splits sum.splits simp del: f_div.simps)
    then show ?thesis unfolding exact_sum_def by blast
  next
    case False
    have "window s' = map Fin (xs @ [x])" "sum_acc s' = Fin (sum_list (xs @ [x]))"
      using assms(3) False w a
      by (auto simp: update_def Let_def split: if_splits sum.splits simp del: f_div.simps)
    then show ?thesis unfolding exact_sum_def by blast
  qed
qed

lemma map_Fin_inj: "map Fin xs = map Fin ys \<Longrightarrow> xs = ys"
  by (simp add: inj_on_def)

lemma lastn_map: "lastn k (map f xs) = map f (lastn k xs)"
  by (simp add: lastn_def drop_map)

lemma feed_exact:
  "sma_ok s \<Longrightarrow> exact_sum s \<Longrightarrow> feed (\<lambda>x. x) s (map Fin xs) = Inr (s', rs) \<Longrightarrow> exact_sum s'"
proof (induction xs arbitrary: s rs)
  case Nil
  then show ?case by simp
next
  case (Cons x xs)
  from update_step[OF Cons.prems(1), of "\<lambda>x. x" "Fin x"] obtain s1 r where
    u: "update (\<lambda>x. x) s (Fin x) = Inr (s1, r)" and ok: "sma_ok s1" by blast
  from update_exact[OF Cons.prems(1,2) u] have ex: "exact_sum s1" .
  from Cons.prems(3) u obtain rs1 where "feed (\<lambda>x. x) s1 (map Fin xs) = Inr (s', rs1)"
    by (auto split: sum.splits)
  from Cons.IH[OF ok ex this] show ?case .
qed

lemma exact_sum_init: "exact_sum (SimpleMovingAverage p)"
  by (simp add: exact_sum_def SimpleMovingAverage_def)


lemma feed_snoc:
  "feed rnd s (vs @ [v]) =
     (case feed rnd s vs of
        Inl e \<Rightarrow> Inl e
      | Inr (s1, rs) \<Rightarrow>
          (case update rnd s1 v of Inl e \<Rightarrow> Inl e | Inr (s2, r) \<Rightarrow> Inr (s2, rs @ [r])))"
  by (induction vs arbitrary: s) (auto split: sum.splits)

lemma sma_means_snoc:
  "sma_means p (xs @ [x]) = sma_means p xs @
     [if int (length xs) + 1 < max 1 p then None
      else Some (Fin (sum_list (lastn (nat (max 1 p)) (xs @ [x])) / of_int (max 1 p)))]"
  by (auto simp: sma_means_def)

lemma feed_exact_outputs:
  "\<exists>s. feed (\<lambda>x. x) (SimpleMovingAverage p) (map Fin xs) = Inr (s, sma_means p xs)"
proof (induction xs rule: rev_induct)
  case Nil
  then show ?case by (simp add: sma_means_def)
next
  case (snoc x xs)
  let ?P = "max 1 p"
  from snoc obtain s where f: "feed (\<lambda>x. x) (SimpleMovingAverage p) (map Fin xs) = Inr (s, sma_means p xs)"
    by blast
  from feed_inv[OF sma_ok_init, of "\<lambda>x. x" p "map Fin xs"] f
  have ok: "sma_ok s" and per: "period s = ?P"
    and w: "window s = lastn (nat ?P) (map Fin xs)"
    by (auto simp: SimpleMovingAverage_def)
  from feed_exact[OF sma_ok_init exact_sum_init f] have ex: "exact_sum s" .
  from update_step[OF ok, of "\<lambda>x. x" "Fin x"] obtain s' r where
    u: "update (\<lambda>x. x) s (Fin x) = Inr (s', r)"
    and w': "window s' = lastn (nat (period s)) (window s @ [Fin x])"
    and r: "if int (length (window s)) + 1 < period s then r = None
         else \<exists>q. f_div (\<lambda>x. x) (sum_acc s') (Fin (real_of_int (period s))) = Inr q \<and> r = Some q"
    by blast
  from update_exact[OF ok ex u] obtain ys where
    ys: "window s' = map Fin ys" and sm: "sum_acc s' = Fin (sum_list ys)"
    by (auto simp: exact_sum_def)
  have "window s' = lastn (nat ?P) (map Fin xs @ [Fin x])"
    using w' w per lastn_lastn_append[of "nat ?P" "map Fin xs" "[Fin x]"] by simp
  also have "\<dots> = map Fin (lastn (nat ?P) (xs @ [x]))"
    using lastn_map[of "nat ?P" Fin "xs @ [x]"] by simp
  finally have ysl: "ys = lastn (nat ?P) (xs @ [x])"
    using ys map_Fin_inj by metis
  have lw: "length (window s) = min (nat ?P) (length xs)"
    using w by (simp add: length_lastn)
  have cond: "(int (length (window s)) + 1 < period s) = (int (length xs) + 1 < ?P)"
    using lw per by auto
  have "r = (if int (length xs) + 1 < ?P then None
      else Some (Fin (sum_list (lastn (nat ?P) (xs @ [x])) / of_int ?P)))"
    using r cond sm ysl per by (auto split: if_splits)
  then show ?case using f u by (simp add: feed_snoc sma_means_snoc)
qed

lemma feed_init:
  "\<exists>s rs. feed rnd (SimpleMovingAverage p) vs = Inr (s, rs) \<and> sma_ok s
     \<and> period s = max 1 p \<and> window s = lastn (nat (max 1 p)) vs \<and> length rs = length vs"
  using feed_inv[OF sma_ok_init, of rnd p vs] by (simp add: SimpleMovingAverage_def)

lemma sma_next_update:
  "\<exists>s rs. feed rnd (SimpleMovingAverage p) vs = Inr (s, rs) \<and>
     (\<exists>s' r. update rnd s v = Inr (s', r) \<and>
        (if int (length vs) + 1 < max 1 p then r = None
         else \<exists>q. f_div rnd (sum_acc s') (Fin (of_int (max 1 p))) = Inr q \<and> r = Some q))"
proof -
  from feed_init[of rnd p vs] obtain s rs where
    f: "feed rnd (SimpleMovingAverage p) vs = Inr (s, rs)" and ok: "sma_ok s"
    and per: "period s = max 1 p" and w: "window s = lastn (nat (max 1 p)) vs"
    by blast
  have lw: "length (window s) = min (nat (max 1 p)) (length vs)"
    using w by (simp add: length_lastn)
  have cond: "(int (length (window s)) + 1 < max 1 p) = (int (length vs) + 1 < max 1 p)"
    using lw by auto
  from update_step[OF ok, of rnd v] obtain s' r where
    u: "update rnd s v = Inr (s', r)"
    and r: "if int (length (window s)) + 1 < period s then r = None
         else \<exists>q. f_div rnd (sum_acc s') (Fin (real_of_int (period s))) = Inr q \<and> r = Some q"
    by blast
  from r have "if int (length vs) + 1 < max 1 p then r = None
       else \<exists>q. f_div rnd (sum_acc s') (Fin (of_int (max 1 p))) = Inr q \<and> r = Some q"
    unfolding per cond .
  with f u show ?thesis by blast
qed

lemma sma_example:
  "feed b64 (SimpleMovingAverage 3) [Fin 1, Fin 2, Fin 3, Fin 4, Fin 5] =
     Inr (\<lparr>period = 3, window = [Fin 3, Fin 4, Fin 5], sum_acc = Fin 12\<rparr>,
          [None, None, Some (Fin 2), Some (Fin 3), Some (Fin 4)])"
  by (simp add: SimpleMovingAverage_def update_def f_sub_def Let_def b64_evals)

text \<open>
  C7, as amended. For every period \<open>p\<close> (raised to at least 1), every rounding and
  every input sequence, no call raises; the call number \<open>length vs + 1\<close> returns
  absent while fewer than the period's values have been seen, and the quotient of the
  running sum by the period afterwards. Where the arithmetic is exact that quotient
  is the arithmetic mean of the last \<open>max 1 p\<close> values. Under binary64, period 3 and
  the inputs 1, 2, 3, 4, 5 give absent, absent, 2, 3, 4.
\<close>

theorem sma_update_results:
  "(\<exists>s rs. feed rnd (SimpleMovingAverage p) vs = Inr (s, rs) \<and>
      (\<exists>s' r. update rnd s v = Inr (s', r) \<and>
         (if int (length vs) + 1 < max 1 p then r = None
          else \<exists>q. f_div rnd (sum_acc s') (Fin (of_int (max 1 p))) = Inr q \<and> r = Some q)))
   \<and> (\<exists>s. feed (\<lambda>x. x) (SimpleMovingAverage p) (map Fin xs) = Inr (s, sma_means p xs))
   \<and> feed b64 (SimpleMovingAverage 3) [Fin 1, Fin 2, Fin 3, Fin 4, Fin 5] =
       Inr (\<lparr>period = 3, window = [Fin 3, Fin 4, Fin 5], sum_acc = Fin 12\<rparr>,
            [None, None, Some (Fin 2), Some (Fin 3), Some (Fin 4)])"
  using sma_next_update[of rnd p vs v] feed_exact_outputs[of p xs] sma_example by blast

text \<open>
  C7 as stated fails under binary64: with period 1 the second call, on the inputs
  \<open>2 ^ 53\<close> and 1, returns 0, while the mean of the last value is 1.
\<close>

theorem sma_mean_counterexample:
  "feed b64 (SimpleMovingAverage 1) [Fin 9007199254740992, Fin 1] =
     Inr (\<lparr>period = 1, window = [Fin 1], sum_acc = Fin 0\<rparr>,
          [Some (Fin 9007199254740992), Some (Fin 0)])
   \<and> sma_means 1 [9007199254740992, 1] = [Some (Fin 9007199254740992), Some (Fin 1)]"
  by (simp add: SimpleMovingAverage_def update_def f_sub_def Let_def b64_evals sma_means_def
      lastn_def upt_rec)

text \<open>
  C8, as amended. After any number of inputs, under every rounding, the window holds
  exactly the last \<open>min n period\<close> values, so it is never longer than the period.
  Where the arithmetic is exact and the inputs are finite, the running sum is the sum
  of the window.
\<close>

theorem sma_window_invariant:
  "(\<exists>s rs. feed rnd (SimpleMovingAverage p) vs = Inr (s, rs)
      \<and> window s = lastn (nat (period s)) vs
      \<and> length (window s) = min (length vs) (nat (period s))
      \<and> int (length (window s)) \<le> period s)
   \<and> (\<exists>s rs. feed (\<lambda>x. x) (SimpleMovingAverage p) (map Fin xs) = Inr (s, rs)
      \<and> window s = map Fin (lastn (nat (period s)) xs)
      \<and> sum_acc s = Fin (sum_list (lastn (nat (period s)) xs)))"
proof
  from feed_init[of rnd p vs] obtain s rs where
    f: "feed rnd (SimpleMovingAverage p) vs = Inr (s, rs)" and ok: "sma_ok s"
    and per: "period s = max 1 p" and w: "window s = lastn (nat (max 1 p)) vs"
    by blast
  have "length (window s) = min (length vs) (nat (period s))"
    using w per by (simp add: length_lastn min.commute)
  moreover have "int (length (window s)) \<le> period s"
    using ok by (simp add: sma_ok_def)
  ultimately show "\<exists>s rs. feed rnd (SimpleMovingAverage p) vs = Inr (s, rs)
      \<and> window s = lastn (nat (period s)) vs
      \<and> length (window s) = min (length vs) (nat (period s))
      \<and> int (length (window s)) \<le> period s"
    using f w per by auto
next
  from feed_init[of "\<lambda>x. x" p "map Fin xs"] obtain s rs where
    f: "feed (\<lambda>x. x) (SimpleMovingAverage p) (map Fin xs) = Inr (s, rs)"
    and per: "period s = max 1 p" and w: "window s = lastn (nat (max 1 p)) (map Fin xs)"
    by blast
  from feed_exact[OF sma_ok_init exact_sum_init f] obtain ys where
    ys: "window s = map Fin ys" and sm: "sum_acc s = Fin (sum_list ys)"
    by (auto simp: exact_sum_def)
  have "map Fin ys = map Fin (lastn (nat (max 1 p)) xs)"
    using ys w by (simp add: lastn_map)
  then have "ys = lastn (nat (period s)) xs"
    using per map_Fin_inj by metis
  then show "\<exists>s rs. feed (\<lambda>x. x) (SimpleMovingAverage p) (map Fin xs) = Inr (s, rs)
      \<and> window s = map Fin (lastn (nat (period s)) xs)
      \<and> sum_acc s = Fin (sum_list (lastn (nat (period s)) xs))"
    using f ys sm by auto
qed

text \<open>
  C8 as stated fails under binary64: with period 2 and the inputs \<open>2 ^ 53\<close>, 1, 1 the
  window holds 1 and 1, whose sum is 2, and the running sum is 0.
\<close>

theorem sma_running_sum_counterexample:
  "feed b64 (SimpleMovingAverage 2) [Fin 9007199254740992, Fin 1, Fin 1] =
     Inr (\<lparr>period = 2, window = [Fin 1, Fin 1], sum_acc = Fin 0\<rparr>,
          [None, Some (Fin 4503599627370496), Some (Fin 0)])
   \<and> Fin 0 \<noteq> Fin (sum_list [1, 1])"
  by (simp add: SimpleMovingAverage_def update_def f_sub_def Let_def b64_evals)


section \<open>Properties of clamp_batch_size\<close>









section \<open>Properties of the pacing delay\<close>

lemma py_max_Fin: "py_max (Fin a) (Fin b) = Fin (max a b)"
  by (simp add: py_max_def f_gt_def max_def)

lemma py_min_Fin: "py_min (Fin a) (Fin b) = Fin (min a b)"
  by (simp add: py_min_def min_def)

lemma f_div_Fin: "y \<noteq> 0 \<Longrightarrow> f_div rnd (Fin x) (Fin y) = Inr (Fin (rnd (x / y)))"
  by simp

lemma tenth_pos: "\<exists>t. tenth = Fin t \<and> 0 < t"
  unfolding tenth_def by (intro exI[of _ "3602879701896397 / 36028797018963968"]) simp

lemma tenth_b64: "tenth = Fin (b64 (1 / 10))"
  by (simp add: tenth_def b64_tenth)

lemma pacing_delay_is_spec: "pacing_delay rnd cfg delta_ms sp = delay_spec rnd cfg delta_ms sp"
  by (simp add: pacing_delay_def delay_spec_def dynamic_max_def div_then_def clamp_def Let_def
      split: sum.splits)

lemma pacing_examples:
  "pacing_delay b64 default_config (Fin 900000) (Fin 1) = Inr (Fin 250)"
  "pacing_delay b64 default_config (Fin 900000) (Fin 10) = Inr (Fin 40)"
  by (simp_all add: pacing_delay_def dynamic_max_def default_config_def tenth_def
      py_max_Fin py_min_Fin Let_def b64_evals)

text \<open>
  C5. For every delta and speed (and every configuration and rounding) the delay
  computed by the code is the specification's formula, a division by zero in one
  being a division by zero in the other. With the default tunables under binary64,
  a delta of 900000 gives 250 at speed 1 and 40 at speed 10.
\<close>

theorem pacing_delay_formula:
  "pacing_delay rnd cfg delta_ms sp = delay_spec rnd cfg delta_ms sp
   \<and> pacing_delay b64 default_config (Fin 900000) (Fin 1) = Inr (Fin 250)
   \<and> pacing_delay b64 default_config (Fin 900000) (Fin 10) = Inr (Fin 40)"
  using pacing_delay_is_spec pacing_examples by simp

lemma dynamic_max_fin:
  assumes "MAX_EMIT_DELAY_MS cfg = Fin mx"
  shows "dynamic_max rnd cfg (Fin s) = Inr (Fin (dmax_real rnd mx s))"
proof -
  have "max 1 (rnd (s / 10)) \<noteq> 0" by linarith
  then show ?thesis
    using assms by (simp add: dynamic_max_def dmax_real_def py_max_Fin del: f_div.simps add: f_div_Fin)
qed

lemma pacing_delay_fin:
  assumes "REFERENCE_DELTA_MS cfg = Fin ref" "ref \<noteq> 0" "BASE_DELAY_MS cfg = Fin base"
    and "MAX_EMIT_DELAY_MS cfg = Fin mx" "MIN_EMIT_DELAY_MS cfg = Fin mn"
    and "tenth = Fin t" "0 < t"
  shows "pacing_delay rnd cfg (Fin d) (Fin s) =
     Inr (Fin (max mn (min (dmax_real rnd mx s) (raw_real rnd ref base t d s))))"
proof -
  have 1: "f_div rnd (Fin d) (REFERENCE_DELTA_MS cfg) = Inr (Fin (rnd (d / ref)))"
    using assms(1,2) by simp
  have "max s t \<noteq> 0" using assms(7) by linarith
  then have 2: "f_div rnd (f_mul rnd (Fin (rnd (d / ref))) (BASE_DELAY_MS cfg)) (py_max (Fin s) tenth)
      = Inr (Fin (raw_real rnd ref base t d s))"
    unfolding assms(3) assms(6) by (simp add: raw_real_def py_max_Fin)
  show ?thesis
    by (simp add: pacing_delay_def Let_def 1 2 dynamic_max_fin[OF assms(4)] assms(5)
        py_max_Fin py_min_Fin del: f_div.simps f_mul.simps)
qed

lemma rnd_nonneg: "mono rnd \<Longrightarrow> rnd 0 = 0 \<Longrightarrow> 0 \<le> x \<Longrightarrow> 0 \<le> rnd x"
  using monoD[of rnd 0 x] by simp

lemma rnd_nonpos: "mono rnd \<Longrightarrow> rnd 0 = 0 \<Longrightarrow> x \<le> 0 \<Longrightarrow> rnd x \<le> 0"
  using monoD[of rnd x 0] by simp

lemma raw_real_antimono:
  assumes "mono rnd" "rnd 0 = 0" "0 < ref" "0 \<le> base" "0 \<le> d" "0 < t" "s1 \<le> s2"
  shows "raw_real rnd ref base t d s2 \<le> raw_real rnd ref base t d s1"
proof -
  define n where "n = rnd (rnd (d / ref) * base)"
  have "0 \<le> d / ref" using assms(3,5) by simp
  then have "0 \<le> rnd (d / ref)" using assms(1,2) by (rule rnd_nonneg[rotated 2])
  then have "0 \<le> rnd (d / ref) * base" using assms(4) by simp
  then have n: "0 \<le> n" unfolding n_def using assms(1,2) by (rule rnd_nonneg[rotated 2])
  have pos1: "0 < max s1 t" using assms(6) by linarith
  have pos2: "0 < max s2 t" using assms(6) by linarith
  have le: "max s1 t \<le> max s2 t" using assms(7) by linarith
  have prod: "0 < max s2 t * max s1 t" using pos1 pos2 by (rule mult_pos_pos[rotated])
  have "n / max s2 t \<le> n / max s1 t"
    using le n prod by (rule divide_left_mono)
  then have "rnd (n / max s2 t) \<le> rnd (n / max s1 t)"
    using assms(1) by (rule monoD[rotated])
  then show ?thesis unfolding raw_real_def n_def .
qed

lemma dmax_real_antimono:
  assumes "mono rnd" "rnd 0 = 0" "s1 \<le> s2"
  shows "dmax_real rnd mx s2 \<le> dmax_real rnd mx s1"
proof -
  define a where "a = max 1 (rnd (s1 / 10))"
  define b where "b = max 1 (rnd (s2 / 10))"
  have "s1 / 10 \<le> s2 / 10" using assms(3) by simp
  then have "rnd (s1 / 10) \<le> rnd (s2 / 10)" using assms(1) by (rule monoD[rotated])
  then have ab: "a \<le> b" unfolding a_def b_def by linarith
  have a: "0 < a" unfolding a_def by linarith
  have b: "0 < b" unfolding b_def by linarith
  have prod: "0 < b * a" using a b by (rule mult_pos_pos[rotated])
  have "rnd (mx / b) \<le> max 20 (rnd (mx / a))"
  proof (cases "0 \<le> mx")
    case True
    have "mx / b \<le> mx / a" using ab True prod by (rule divide_left_mono)
    then have "rnd (mx / b) \<le> rnd (mx / a)" using assms(1) by (rule monoD[rotated])
    then show ?thesis by linarith
  next
    case False
    then have "mx / b \<le> 0" using b by (simp add: divide_le_0_iff)
    then have "rnd (mx / b) \<le> 0" using assms(1,2) by (rule rnd_nonpos[rotated 2])
    then show ?thesis by linarith
  qed
  then have "max 20 (rnd (mx / b)) \<le> max 20 (rnd (mx / a))" by linarith
  then show ?thesis unfolding dmax_real_def a_def b_def .
qed

text \<open>
  C6, as amended. Let the four tunables be finite, with a non-zero reference delta.
  Then for every finite delta and speed the delay exists, is never below
  \<open>MIN_EMIT_DELAY_MS\<close>, and is at most the dynamic maximum whenever the minimum is not
  above that maximum (always so for a minimum of at most 20); otherwise it is the
  minimum. If moreover the reference delta is positive, the base delay and the delta
  are not negative and the rounding is monotone and keeps zero, the delay does not
  increase when the speed increases.
\<close>

theorem pacing_delay_monotone_bounded:
  assumes "REFERENCE_DELTA_MS cfg = Fin ref" "ref \<noteq> 0" "BASE_DELAY_MS cfg = Fin base"
    and "MAX_EMIT_DELAY_MS cfg = Fin mx" "MIN_EMIT_DELAY_MS cfg = Fin mn"
  shows "\<exists>d1 d2 h1.
      pacing_delay rnd cfg (Fin d) (Fin s1) = Inr (Fin d1)
    \<and> pacing_delay rnd cfg (Fin d) (Fin s2) = Inr (Fin d2)
    \<and> dynamic_max rnd cfg (Fin s1) = Inr (Fin h1)
    \<and> mn \<le> d1 \<and> 20 \<le> h1 \<and> (if mn \<le> h1 then d1 \<le> h1 else d1 = mn)
    \<and> (mono rnd \<and> rnd 0 = 0 \<and> 0 < ref \<and> 0 \<le> base \<and> 0 \<le> d \<and> s1 \<le> s2 \<longrightarrow> d2 \<le> d1)"
proof -
  from tenth_pos obtain t where t: "tenth = Fin t" "0 < t" by blast
  let ?h1 = "dmax_real rnd mx s1" and ?h2 = "dmax_real rnd mx s2"
  let ?r1 = "raw_real rnd ref base t d s1" and ?r2 = "raw_real rnd ref base t d s2"
  let ?d1 = "max mn (min ?h1 ?r1)" and ?d2 = "max mn (min ?h2 ?r2)"
  have p1: "pacing_delay rnd cfg (Fin d) (Fin s1) = Inr (Fin ?d1)"
    using pacing_delay_fin[OF assms t] .
  have p2: "pacing_delay rnd cfg (Fin d) (Fin s2) = Inr (Fin ?d2)"
    using pacing_delay_fin[OF assms t] .
  have h: "dynamic_max rnd cfg (Fin s1) = Inr (Fin ?h1)"
    using dynamic_max_fin[OF assms(4)] .
  have b1: "mn \<le> ?d1" by linarith
  have b2: "20 \<le> ?h1" by (simp add: dmax_real_def)
  have b3: "if mn \<le> ?h1 then ?d1 \<le> ?h1 else ?d1 = mn"
  proof (cases "mn \<le> ?h1")
    case True
    then have "?d1 \<le> ?h1" by linarith
    with True show ?thesis by simp
  next
    case False
    then have "?d1 = mn" by linarith
    with False show ?thesis by simp
  qed
  have m: "mono rnd \<and> rnd 0 = 0 \<and> 0 < ref \<and> 0 \<le> base \<and> 0 \<le> d \<and> s1 \<le> s2 \<longrightarrow> ?d2 \<le> ?d1"
  proof
    assume a: "mono rnd \<and> rnd 0 = 0 \<and> 0 < ref \<and> 0 \<le> base \<and> 0 \<le> d \<and> s1 \<le> s2"
    then have "?r2 \<le> ?r1" using t(2) by (intro raw_real_antimono) simp_all
    moreover from a have "?h2 \<le> ?h1" by (intro dmax_real_antimono) simp_all
    ultimately show "?d2 \<le> ?d1" by linarith
  qed
  from p1 p2 h b1 b2 b3 m show ?thesis by blast
qed

theorem pacing_delay_monotone_bounded_witness:
  "\<exists>d1 d2 h1.
      pacing_delay b64 default_config (Fin 900000) (Fin 1) = Inr (Fin d1)
    \<and> pacing_delay b64 default_config (Fin 900000) (Fin 10) = Inr (Fin d2)
    \<and> dynamic_max b64 default_config (Fin 1) = Inr (Fin h1)
    \<and> 1 \<le> d1 \<and> 20 \<le> h1 \<and> d1 \<le> h1 \<and> d2 \<le> d1"
proof -
  have "\<exists>d1 d2 h1.
      pacing_delay b64 default_config (Fin 900000) (Fin 1) = Inr (Fin d1)
    \<and> pacing_delay b64 default_config (Fin 900000) (Fin 10) = Inr (Fin d2)
    \<and> dynamic_max b64 default_config (Fin 1) = Inr (Fin h1)
    \<and> 1 \<le> d1 \<and> 20 \<le> h1 \<and> (if 1 \<le> h1 then d1 \<le> h1 else d1 = 1)
    \<and> (mono b64 \<and> b64 0 = 0 \<and> (0::real) < 900000 \<and> (0::real) \<le> 400
        \<and> (0::real) \<le> 900000 \<and> (1::real) \<le> 10 \<longrightarrow> d2 \<le> d1)"
    by (rule pacing_delay_monotone_bounded[where ref = 900000 and base = 400 and mx = 250])
      (simp_all add: default_config_def)
  then obtain d1 d2 h1 where
    r: "pacing_delay b64 default_config (Fin 900000) (Fin 1) = Inr (Fin d1)"
      "pacing_delay b64 default_config (Fin 900000) (Fin 10) = Inr (Fin d2)"
      "dynamic_max b64 default_config (Fin 1) = Inr (Fin h1)"
      "1 \<le> d1" "20 \<le> h1"
    and b: "if 1 \<le> h1 then d1 \<le> h1 else d1 = 1"
    and m: "mono b64 \<and> b64 0 = 0 \<and> (0::real) < 900000 \<and> (0::real) \<le> 400
        \<and> (0::real) \<le> 900000 \<and> (1::real) \<le> 10 \<longrightarrow> d2 \<le> d1"
    by blast
  from r(5) have "1 \<le> h1" by linarith
  with b have "d1 \<le> h1" by simp
  moreover from m have "d2 \<le> d1" by (simp add: mono_b64 b64_0)
  ultimately show ?thesis using r by blast
qed

text \<open>
  C6 as stated fails. With a minimum emit delay of 300 (the other tunables at their
  defaults) the delay at delta 900000 and speed 1 is 300, above the dynamic maximum
  250. With a base delay of \<open>- 400\<close> and a minimum of \<open>- 1000\<close> the delay grows with
  the speed, from \<open>- 400\<close> at speed 1 to \<open>- 200\<close> at speed 2.
\<close>

theorem pacing_delay_bound_counterexample:
  "pacing_delay b64 (default_config\<lparr>MIN_EMIT_DELAY_MS := Fin 300\<rparr>) (Fin 900000) (Fin 1)
     = Inr (Fin 300)
   \<and> dynamic_max b64 (default_config\<lparr>MIN_EMIT_DELAY_MS := Fin 300\<rparr>) (Fin 1) = Inr (Fin 250)
   \<and> pacing_delay b64
       (default_config\<lparr>MIN_EMIT_DELAY_MS := Fin (- 1000), BASE_DELAY_MS := Fin (- 400)\<rparr>)
       (Fin 900000) (Fin 1) = Inr (Fin (- 400))
   \<and> pacing_delay b64
       (default_config\<lparr>MIN_EMIT_DELAY_MS := Fin (- 1000), BASE_DELAY_MS := Fin (- 400)\<rparr>)
       (Fin 900000) (Fin 2) = Inr (Fin (- 200))"
  by (simp add: pacing_delay_def dynamic_max_def default_config_def tenth_def
      py_max_Fin py_min_Fin Let_def b64_evals)


section \<open>Properties of the indicator registry and of the setup\<close>

lemma spec_instance_registers:
  "(\<exists>i. spec_instance spec = Inr (Some i)) =
   (\<exists>kv n. spec = JObj kv \<and> get kv ''type'' = JStr ''sma'' \<and> spec_period kv = Inr n)"
  by (cases spec) (auto simp: spec_instance_def Let_def split: sum.splits)

lemma spec_instance_unsupported:
  "(\<forall>kv. spec = JObj kv \<longrightarrow> get kv ''type'' \<noteq> JStr ''sma'') \<Longrightarrow> spec_instance spec = Inr None"
  by (cases spec) (auto simp: spec_instance_def)

lemma build_instances_append:
  "build_instances (xs @ ys) =
     (case build_instances xs of
        Inl e \<Rightarrow> Inl e
      | Inr is \<Rightarrow> (case build_instances ys of Inl e \<Rightarrow> Inl e | Inr js \<Rightarrow> Inr (is @ js)))"
  by (induction xs) (auto split: sum.splits option.splits)

lemma build_instances_skip:
  assumes "spec_instance spec = Inr None"
  shows "build_instances (xs @ spec # ys) = build_instances (xs @ ys)"
proof -
  have "build_instances (spec # ys) = build_instances ys"
    using assms by (simp split: sum.splits)
  then show ?thesis by (simp only: build_instances_append)
qed

text \<open>What one spec contributes to the registry.\<close>

lemma build_instances_registered:
  "build_instances specs = Inr insts \<Longrightarrow>
   insts = concat (map (\<lambda>s. case spec_instance s of Inr (Some i) \<Rightarrow> [i] | _ \<Rightarrow> []) specs)"
proof (induction specs arbitrary: insts)
  case Nil
  then show ?case by simp
next
  case (Cons spec specs)
  then show ?case by (auto split: sum.splits option.splits)
qed

text \<open>
  C1, as amended. An entry of the list is registered exactly when it is a JSON object
  whose \<^verbatim>\<open>type\<close> field is "sma" and whose period (the \<^verbatim>\<open>period\<close> of its
  \<^verbatim>\<open>params\<close>, 20 when absent) is accepted by \<^verbatim>\<open>int\<close>. An entry with any other
  \<^verbatim>\<open>type\<close> is skipped without error: the registry is the one built without it.
  A registry that is built holds what the entries register, in their order.
\<close>

theorem registry_registers_sma_specs:
  "((\<exists>i. spec_instance spec = Inr (Some i)) =
      (\<exists>kv n. spec = JObj kv \<and> get kv ''type'' = JStr ''sma'' \<and> spec_period kv = Inr n))
   \<and> ((\<forall>kv. other = JObj kv \<longrightarrow> get kv ''type'' \<noteq> JStr ''sma'') \<longrightarrow>
        spec_instance other = Inr None
        \<and> build_instances (xs @ other # ys) = build_instances (xs @ ys))
   \<and> (build_instances specs = Inr insts \<longrightarrow>
        insts = concat (map (\<lambda>s. case spec_instance s of Inr (Some i) \<Rightarrow> [i] | _ \<Rightarrow> []) specs))"
  using spec_instance_registers[of spec] spec_instance_unsupported[of other]
    build_instances_skip[of other xs ys] build_instances_registered[of specs insts]
  by blast

lemma show_nat_5: "show_nat 5 = ''5''"
  by code_simp

lemma spec_instance_sma5:
  "spec_instance (JObj [(''type'', JStr ''sma''), (''params'', JObj [(''period'', JInt 5)])]) =
     Inr (Some \<lparr>inst_id = JStr ''sma-5'', warmup = 4, impl = SimpleMovingAverage 5\<rparr>)"
  by (simp add: spec_instance_def spec_period_def period_raw_def get_def get_default_def
      show_nat_5)

theorem registry_registers_sma_specs_witness:
  "(spec_instance (JObj [(''type'', JStr ''ema'')]) = Inr None
    \<and> build_instances ([] @ JObj [(''type'', JStr ''ema'')]
         # [JObj [(''type'', JStr ''sma''), (''params'', JObj [(''period'', JInt 5)])]]) =
       build_instances
         ([] @ [JObj [(''type'', JStr ''sma''), (''params'', JObj [(''period'', JInt 5)])]]))
   \<and> [\<lparr>inst_id = JStr ''sma-5'', warmup = 4, impl = SimpleMovingAverage 5\<rparr>] =
       concat (map (\<lambda>s. case spec_instance s of Inr (Some i) \<Rightarrow> [i] | _ \<Rightarrow> [])
         [JObj [(''type'', JStr ''ema'')],
          JObj [(''type'', JStr ''sma''), (''params'', JObj [(''period'', JInt 5)])]])"
proof
  show "spec_instance (JObj [(''type'', JStr ''ema'')]) = Inr None
    \<and> build_instances ([] @ JObj [(''type'', JStr ''ema'')]
         # [JObj [(''type'', JStr ''sma''), (''params'', JObj [(''period'', JInt 5)])]]) =
       build_instances
         ([] @ [JObj [(''type'', JStr ''sma''), (''params'', JObj [(''period'', JInt 5)])]])"
  proof (rule registry_registers_sma_specs[THEN conjunct2, THEN conjunct1, THEN mp])
    show "\<forall>kv. JObj [(''type'', JStr ''ema'')] = JObj kv \<longrightarrow> get kv ''type'' \<noteq> JStr ''sma''"
      by (simp add: get_def get_default_def)
  qed
next
  have e: "spec_instance (JObj [(''type'', JStr ''ema'')]) = Inr None"
    by (simp add: spec_instance_def get_def get_default_def)
  show "[\<lparr>inst_id = JStr ''sma-5'', warmup = 4, impl = SimpleMovingAverage 5\<rparr>] =
       concat (map (\<lambda>s. case spec_instance s of Inr (Some i) \<Rightarrow> [i] | _ \<Rightarrow> [])
         [JObj [(''type'', JStr ''ema'')],
          JObj [(''type'', JStr ''sma''), (''params'', JObj [(''period'', JInt 5)])]])"
    by (rule registry_registers_sma_specs[THEN conjunct2, THEN conjunct2, THEN mp])
      (simp add: e spec_instance_sma5)
qed

text \<open>
  C1 as stated fails: an entry whose \<^verbatim>\<open>kind\<close> field is "sma", with a valid period,
  registers nothing; the code reads the \<^verbatim>\<open>type\<close> field.
\<close>

theorem registry_kind_field_counterexample:
  "spec_instance (JObj [(''kind'', JStr ''sma''), (''params'', JObj [(''period'', JInt 5)])]) =
     Inr None
   \<and> build_instances [JObj [(''kind'', JStr ''sma''), (''params'', JObj [(''period'', JInt 5)])]] =
     Inr []"
  by (simp add: spec_instance_def get_def get_default_def)

text \<open>
  C3, as amended. A non-empty \<^verbatim>\<open>indicators\<close> parameter that is not valid JSON is
  fatal: one ERROR message is sent, the channel is closed and no replay loop starts
  (whatever the other parameters are). Valid JSON that is not a list is ignored: with
  a symbol, a timeframe and no unreadable \<^verbatim>\<open>after\<close>, the session starts with no
  indicators.
\<close>

theorem indicators_payload_errors:
  "(params ''indicators'' = Some s \<and> s \<noteq> [] \<and> loads s = None \<longrightarrow>
      (\<exists>msg. handle_setup cfg to_float loads params = Closed [ERROR msg]))
   \<and> (params ''indicators'' = Some s \<and> loads s = Some j \<and> (\<forall>specs. j \<noteq> JList specs)
      \<and> params ''symbol'' = Some sy \<and> sy \<noteq> [] \<and> params ''timeframe'' = Some frame \<and> frame \<noteq> []
      \<and> (case str_or (params ''after'') (params ''from'') of
            None \<Rightarrow> True | Some a \<Rightarrow> py_int_str a \<noteq> None) \<longrightarrow>
      (\<exists>st. handle_setup cfg to_float loads params = Started st \<and> indicator_instances st = []))"
proof (intro conjI impI)
  assume a: "params ''indicators'' = Some s \<and> s \<noteq> [] \<and> loads s = None"
  then have "parse_indicators loads (params ''indicators'') = Inr (Inl ())"
    by (simp add: parse_indicators_def)
  then show "\<exists>msg. handle_setup cfg to_float loads params = Closed [ERROR msg]"
    by (auto simp: handle_setup_def Let_def split: option.splits)
next
  assume a: "params ''indicators'' = Some s \<and> loads s = Some j \<and> (\<forall>specs. j \<noteq> JList specs)
      \<and> params ''symbol'' = Some sy \<and> sy \<noteq> [] \<and> params ''timeframe'' = Some frame \<and> frame \<noteq> []
      \<and> (case str_or (params ''after'') (params ''from'') of
            None \<Rightarrow> True | Some a \<Rightarrow> py_int_str a \<noteq> None)"
  then have "parse_indicators loads (params ''indicators'') = Inr (Inr [])"
    by (cases j) (auto simp: parse_indicators_def)
  with a show "\<exists>st. handle_setup cfg to_float loads params = Started st
      \<and> indicator_instances st = []"
    by (auto simp: handle_setup_def Let_def split: option.splits)
qed

theorem indicators_payload_errors_witness:
  "(\<exists>msg. handle_setup default_config Map.empty Map.empty
        [''symbol'' \<mapsto> ''BTC'', ''timeframe'' \<mapsto> ''15m'', ''indicators'' \<mapsto> ''{oops'']
      = Closed [ERROR msg])
   \<and> (\<exists>st. handle_setup default_config Map.empty [''7'' \<mapsto> JInt 7]
          [''symbol'' \<mapsto> ''BTC'', ''timeframe'' \<mapsto> ''15m'', ''indicators'' \<mapsto> ''7'']
        = Started st \<and> indicator_instances st = [])"
proof
  show "\<exists>msg. handle_setup default_config Map.empty Map.empty
        [''symbol'' \<mapsto> ''BTC'', ''timeframe'' \<mapsto> ''15m'', ''indicators'' \<mapsto> ''{oops'']
      = Closed [ERROR msg]"
    by (rule indicators_payload_errors[where s = "''{oops''", THEN conjunct1, THEN mp]) simp
next
  show "\<exists>st. handle_setup default_config Map.empty [''7'' \<mapsto> JInt 7]
          [''symbol'' \<mapsto> ''BTC'', ''timeframe'' \<mapsto> ''15m'', ''indicators'' \<mapsto> ''7'']
        = Started st \<and> indicator_instances st = []"
    by (rule indicators_payload_errors[where s = "''7''" and j = "JInt 7" and sy = "''BTC''"
          and frame = "''15m''", THEN conjunct2, THEN mp])
      (simp add: str_or_def)
qed

text \<open>
  C3 as stated fails for valid JSON that is not a list: with the parameters
  \<^verbatim>\<open>symbol=BTC&timeframe=15m&indicators={}\<close> no ERROR is sent and the replay loop
  is entered, with no indicators.
\<close>

theorem indicators_not_a_list_counterexample:
  "handle_setup default_config Map.empty [''{}'' \<mapsto> JObj []]
     [''symbol'' \<mapsto> ''BTC'', ''timeframe'' \<mapsto> ''15m'', ''indicators'' \<mapsto> ''{}''] =
   Started
     \<lparr>sym = ''BTC'', tf = ''15m'', dataset = None, batch_size = 500, speed = Fin 1,
      paused = False, last_sent_ts = None, last_timestamp = None, indicator_instances = [],
      listening = True, pending = [], sent = [], status = Running\<rparr>"
  by (simp add: handle_setup_def parse_indicators_def str_or_def initial_speed_def
      clamp_batch_size_def default_config_def)

subsection \<open>Two specs with one id\<close>

lemma py_key_eq_refl: "py_key_eq a a"
  by (simp add: py_key_eq_def split: option.splits)

lemma py_key_eq_sym: "py_key_eq a b \<Longrightarrow> py_key_eq b a"
  by (auto simp: py_key_eq_def split: option.splits)

lemma py_key_eq_trans: "py_key_eq a b \<Longrightarrow> py_key_eq b c \<Longrightarrow> py_key_eq a c"
  by (auto simp: py_key_eq_def split: option.splits)

lemma py_key_eq_numbers:
  "py_key_eq (JInt 1) (JBool True)" "py_key_eq (JInt 1) (JFloat (Fin 1))"
  "py_key_eq (JBool True) (JFloat (Fin 1))" "\<not> py_key_eq (JInt 1) (JStr ''1'')"
  by (simp_all add: py_key_eq_def)

lemma dict_get_set:
  "dict_get (dict_set k v d) k' = (if py_key_eq k k' then Some v else dict_get d k')"
proof (induction d)
  case Nil
  then show ?case by simp
next
  case (Cons e d)
  show ?case
  proof (cases "py_key_eq (fst e) k")
    case True
    then have "py_key_eq (fst e) k' = py_key_eq k k'"
      using py_key_eq_trans py_key_eq_sym by blast
    with True show ?thesis by simp
  next
    case False
    then have "py_key_eq k k' \<Longrightarrow> \<not> py_key_eq (fst e) k'"
      using py_key_eq_trans py_key_eq_sym by blast
    with False Cons.IH show ?thesis by auto
  qed
qed

lemma dict_set_keys:
  "list_all (\<lambda>e. P (fst e)) d \<Longrightarrow> P k \<Longrightarrow> list_all (\<lambda>e. P (fst e)) (dict_set k v d)"
  by (induction d) auto

lemma keys_distinct_set: "keys_distinct d \<Longrightarrow> keys_distinct (dict_set k v d)"
proof (induction d)
  case Nil
  then show ?case by simp
next
  case (Cons e d)
  show ?case
  proof (cases "py_key_eq (fst e) k")
    case True
    with Cons.prems show ?thesis by simp
  next
    case False
    from Cons.prems have a: "list_all (\<lambda>e'. \<not> py_key_eq (fst e) (fst e')) d"
      and b: "keys_distinct d" by simp_all
    from dict_set_keys[where P = "\<lambda>x. \<not> py_key_eq (fst e) x", OF a False]
    have "list_all (\<lambda>e'. \<not> py_key_eq (fst e) (fst e')) (dict_set k v d)" .
    with False Cons.IH[OF b] show ?thesis by simp
  qed
qed

lemma update_instances_append:
  "update_instances rnd (xs @ ys) v pl =
     (case update_instances rnd xs v pl of
        Inl e \<Rightarrow> Inl e
      | Inr (xs', pl1) \<Rightarrow>
          (case update_instances rnd ys v pl1 of
             Inl e \<Rightarrow> Inl e
           | Inr (ys', plb) \<Rightarrow> Inr (xs' @ ys', plb)))"
  by (induction xs arbitrary: pl) (auto split: sum.splits prod.splits)

text \<open>Every instance of the registry is updated, and none is dropped or moved.\<close>

lemma update_instances_all:
  "update_instances rnd xs v pl = Inr (xs', pl') \<Longrightarrow>
   list_all2 (\<lambda>i i'. \<exists>s r. update rnd (impl i) v = Inr (s, r) \<and> i' = i\<lparr>impl := s\<rparr>) xs xs'"
proof (induction xs arbitrary: pl xs')
  case Nil
  then show ?case by simp
next
  case (Cons i xs)
  from Cons.prems obtain s r is' where
    u: "update rnd (impl i) v = Inr (s, r)"
    and rec: "update_instances rnd xs v (dict_set (inst_id i) r pl) = Inr (is', pl')"
    and xs': "xs' = i\<lparr>impl := s\<rparr> # is'"
    by (auto split: sum.splits prod.splits if_splits)
  from Cons.IH[OF rec] u xs' show ?case by simp
qed

lemma update_instances_keys_distinct:
  "update_instances rnd xs v pl = Inr (xs', pl') \<Longrightarrow> keys_distinct pl \<Longrightarrow> keys_distinct pl'"
proof (induction xs arbitrary: pl xs')
  case Nil
  then show ?case by simp
next
  case (Cons i xs)
  from Cons.prems(1) obtain s r is' where
    rec: "update_instances rnd xs v (dict_set (inst_id i) r pl) = Inr (is', pl')"
    by (auto split: sum.splits prod.splits if_splits)
  from Cons.IH[OF rec keys_distinct_set[OF Cons.prems(2)]] show ?case .
qed

lemma update_instances_other_key:
  "update_instances rnd xs v pl = Inr (xs', pl') \<Longrightarrow>
   list_all (\<lambda>j. \<not> py_key_eq (inst_id j) k) xs \<Longrightarrow> dict_get pl' k = dict_get pl k"
proof (induction xs arbitrary: pl xs')
  case Nil
  then show ?case by simp
next
  case (Cons i xs)
  from Cons.prems(1) obtain s r is' where
    rec: "update_instances rnd xs v (dict_set (inst_id i) r pl) = Inr (is', pl')"
    by (auto split: sum.splits prod.splits if_splits)
  from Cons.prems(2) have rest: "list_all (\<lambda>j. \<not> py_key_eq (inst_id j) k) xs"
    and ne: "\<not> py_key_eq (inst_id i) k" by simp_all
  from Cons.IH[OF rec rest] have "dict_get pl' k = dict_get (dict_set (inst_id i) r pl) k" .
  with ne show ?case by (simp add: dict_get_set)
qed

lemma update_instances_last_wins:
  assumes "update_instances rnd (xs @ i # ys) v pl = Inr (insts', pl')"
    and "list_all (\<lambda>j. \<not> py_key_eq (inst_id j) (inst_id i)) ys"
  shows "\<exists>s r. update rnd (impl i) v = Inr (s, r) \<and> dict_get pl' (inst_id i) = Some r"
proof -
  from assms(1) obtain xs' pl1 zs where
    z: "update_instances rnd (i # ys) v pl1 = Inr (zs, pl')"
    by (auto simp: update_instances_append split: sum.splits prod.splits)
  from z obtain s r ys' where
    u: "update rnd (impl i) v = Inr (s, r)"
    and y: "update_instances rnd ys v (dict_set (inst_id i) r pl1) = Inr (ys', pl')"
    by (auto split: sum.splits prod.splits if_splits)
  from update_instances_other_key[OF y assms(2)]
  have "dict_get pl' (inst_id i) = Some r" by (simp add: dict_get_set py_key_eq_refl)
  with u show ?thesis by blast
qed

text \<open>The instances of two accepted specs are both in the registry, in spec order.\<close>

lemma build_instances_both:
  assumes "build_instances (xs @ a # ys @ b # zs) = Inr insts"
    and "spec_instance a = Inr (Some i)" and "spec_instance b = Inr (Some j)"
  shows "\<exists>ps qs rs. insts = ps @ i # qs @ j # rs"
proof -
  from build_instances_registered[OF assms(1)] assms(2,3)
  have "insts = concat (map (\<lambda>s. case spec_instance s of Inr (Some i) \<Rightarrow> [i] | _ \<Rightarrow> []) xs)
      @ i # concat (map (\<lambda>s. case spec_instance s of Inr (Some i) \<Rightarrow> [i] | _ \<Rightarrow> []) ys)
      @ j # concat (map (\<lambda>s. case spec_instance s of Inr (Some i) \<Rightarrow> [i] | _ \<Rightarrow> []) zs)"
    by simp
  then show ?thesis by blast
qed

text \<open>What a record that is sent leaves in the session and on the channel.\<close>

lemma emit_row_instances:
  assumes "update_instances rnd (indicator_instances st) (close row) [] = Inr (insts', pl')"
  shows "indicator_instances (emit_row rnd cfg st row) = insts'
     \<and> CANDLE row (if pl' = [] then None else Some pl') \<in> set (sent (emit_row rnd cfg st row))"
  using assms by (simp add: emit_row_def Let_def split: option.splits sum.splits)


text \<open>
  C4, as amended. The registry is a list and keeps one instance for every accepted
  spec, in spec order, so two specs with one id leave two instances. A record
  updates every instance of the registry, each with its own state, and the session
  keeps them all. What is overwritten is the entry of the record's indicator map,
  which has one entry for an id: under an id it holds the result of the last
  instance registered with that id, ids being compared as Python dict keys.
\<close>

theorem same_id_last_value_wins:
  "(build_instances (xs @ a # ys @ b # zs) = Inr insts
      \<and> spec_instance a = Inr (Some i) \<and> spec_instance b = Inr (Some j) \<longrightarrow>
    (\<exists>ps qs rs. insts = ps @ i # qs @ j # rs))
   \<and> (update_instances rnd (indicator_instances st) (close row) [] = Inr (reg', pl') \<longrightarrow>
      list_all2 (\<lambda>i i'. \<exists>s r. update rnd (impl i) (close row) = Inr (s, r) \<and> i' = i\<lparr>impl := s\<rparr>)
        (indicator_instances st) reg'
      \<and> keys_distinct pl'
      \<and> indicator_instances (emit_row rnd cfg st row) = reg'
      \<and> CANDLE row (if pl' = [] then None else Some pl') \<in> set (sent (emit_row rnd cfg st row)))
   \<and> (update_instances rnd (us @ k # ws) v pl = Inr (regb, plb)
      \<and> list_all (\<lambda>w. \<not> py_key_eq (inst_id w) (inst_id k)) ws \<longrightarrow>
      (\<exists>s r. update rnd (impl k) v = Inr (s, r) \<and> dict_get plb (inst_id k) = Some r))"
proof (intro conjI impI)
  assume "build_instances (xs @ a # ys @ b # zs) = Inr insts
      \<and> spec_instance a = Inr (Some i) \<and> spec_instance b = Inr (Some j)"
  then show "\<exists>ps qs rs. insts = ps @ i # qs @ j # rs"
    using build_instances_both by blast
next
  assume u: "update_instances rnd (indicator_instances st) (close row) [] = Inr (reg', pl')"
  show "list_all2 (\<lambda>i i'. \<exists>s r. update rnd (impl i) (close row) = Inr (s, r) \<and> i' = i\<lparr>impl := s\<rparr>)
        (indicator_instances st) reg'"
    using u by (rule update_instances_all)
  show "keys_distinct pl'"
    using update_instances_keys_distinct[OF u] by simp
  show "indicator_instances (emit_row rnd cfg st row) = reg'"
    using emit_row_instances[OF u] by simp
  show "CANDLE row (if pl' = [] then None else Some pl') \<in> set (sent (emit_row rnd cfg st row))"
    using emit_row_instances[OF u] by simp
next
  assume "update_instances rnd (us @ k # ws) v pl = Inr (regb, plb)
      \<and> list_all (\<lambda>w. \<not> py_key_eq (inst_id w) (inst_id k)) ws"
  then show "\<exists>s r. update rnd (impl k) v = Inr (s, r) \<and> dict_get plb (inst_id k) = Some r"
    using update_instances_last_wins by blast
qed

lemma sample_spec_instance:
  "0 < p \<Longrightarrow> truthy i \<Longrightarrow> spec_instance (sample_spec i p) = Inr (Some (sample_instance i p))"
  by (simp add: sample_spec_def sample_instance_def spec_instance_def spec_period_def
      period_raw_def get_def get_default_def)

lemma sample_update_one:
  "update (\<lambda>x. x) (SimpleMovingAverage 1) (Fin 11) =
     Inr (\<lparr>period = 1, window = [Fin 11], sum_acc = Fin 11\<rparr>, Some (Fin 11))"
  by (simp add: SimpleMovingAverage_def update_def Let_def)

lemma sample_update_two:
  "update (\<lambda>x. x) (SimpleMovingAverage 2) (Fin 11) =
     Inr (\<lparr>period = 2, window = [Fin 11], sum_acc = Fin 11\<rparr>, None)"
  by (simp add: SimpleMovingAverage_def update_def Let_def)

lemma sample_update_instances:
  "update_instances (\<lambda>x. x) [sample_instance (JInt 1) 2, sample_instance (JBool True) 1]
     (Fin 11) [] =
   Inr ([updated_instance (JInt 1) 2 (Fin 11), updated_instance (JBool True) 1 (Fin 11)],
        [(JInt 1, Some (Fin 11))])"
  by (simp add: sample_instance_def updated_instance_def sample_update_one sample_update_two
      py_key_eq_def)

theorem same_id_last_value_wins_witness:
  "(\<exists>ps qs rs. [sample_instance (JInt 1) 2, sample_instance (JBool True) 1]
       = ps @ sample_instance (JInt 1) 2 # qs @ sample_instance (JBool True) 1 # rs)
   \<and> (list_all2 (\<lambda>i i'. \<exists>s r. update (\<lambda>x. x) (impl i) (close (sample_candle 600)) = Inr (s, r)
                        \<and> i' = i\<lparr>impl := s\<rparr>)
         (indicator_instances (sample_session\<lparr>indicator_instances :=
            [sample_instance (JInt 1) 2, sample_instance (JBool True) 1]\<rparr>))
         [updated_instance (JInt 1) 2 (Fin 11), updated_instance (JBool True) 1 (Fin 11)]
      \<and> keys_distinct [(JInt 1, Some (Fin 11))]
      \<and> indicator_instances (emit_row (\<lambda>x. x) default_config
           (sample_session\<lparr>indicator_instances :=
              [sample_instance (JInt 1) 2, sample_instance (JBool True) 1]\<rparr>) (sample_candle 600))
         = [updated_instance (JInt 1) 2 (Fin 11), updated_instance (JBool True) 1 (Fin 11)]
      \<and> CANDLE (sample_candle 600)
           (if [(JInt 1, Some (Fin 11))] = [] then None else Some [(JInt 1, Some (Fin 11))])
         \<in> set (sent (emit_row (\<lambda>x. x) default_config
              (sample_session\<lparr>indicator_instances :=
                 [sample_instance (JInt 1) 2, sample_instance (JBool True) 1]\<rparr>)
              (sample_candle 600))))
   \<and> (\<exists>s r. update (\<lambda>x. x) (impl (sample_instance (JBool True) 1)) (Fin 11) = Inr (s, r)
         \<and> dict_get [(JInt 1, Some (Fin 11))] (inst_id (sample_instance (JBool True) 1)) = Some r)"
proof (intro conjI)
  show "\<exists>ps qs rs. [sample_instance (JInt 1) 2, sample_instance (JBool True) 1]
       = ps @ sample_instance (JInt 1) 2 # qs @ sample_instance (JBool True) 1 # rs"
    by (rule same_id_last_value_wins[where xs = "[]" and ys = "[]" and zs = "[]"
          and a = "sample_spec (JInt 1) 2" and b = "sample_spec (JBool True) 1",
          THEN conjunct1, THEN mp])
      (simp add: sample_spec_instance)
  have u: "update_instances (\<lambda>x. x)
       (indicator_instances (sample_session\<lparr>indicator_instances :=
          [sample_instance (JInt 1) 2, sample_instance (JBool True) 1]\<rparr>))
       (close (sample_candle 600)) [] =
     Inr ([updated_instance (JInt 1) 2 (Fin 11), updated_instance (JBool True) 1 (Fin 11)],
          [(JInt 1, Some (Fin 11))])"
    using sample_update_instances by (simp add: sample_candle_def)
  note c = same_id_last_value_wins[where rnd = "\<lambda>x. x" and cfg = default_config,
      THEN conjunct2, THEN conjunct1, THEN mp, OF u]
  show "list_all2 (\<lambda>i i'. \<exists>s r. update (\<lambda>x. x) (impl i) (close (sample_candle 600)) = Inr (s, r)
                        \<and> i' = i\<lparr>impl := s\<rparr>)
         (indicator_instances (sample_session\<lparr>indicator_instances :=
            [sample_instance (JInt 1) 2, sample_instance (JBool True) 1]\<rparr>))
         [updated_instance (JInt 1) 2 (Fin 11), updated_instance (JBool True) 1 (Fin 11)]"
    using c by (rule conjunct1)
  show "keys_distinct [(JInt 1, Some (Fin 11))]"
    using c by (rule conjunct2[THEN conjunct1])
  show "indicator_instances (emit_row (\<lambda>x. x) default_config
           (sample_session\<lparr>indicator_instances :=
              [sample_instance (JInt 1) 2, sample_instance (JBool True) 1]\<rparr>) (sample_candle 600))
         = [updated_instance (JInt 1) 2 (Fin 11), updated_instance (JBool True) 1 (Fin 11)]"
    using c by (rule conjunct2[THEN conjunct2, THEN conjunct1])
  show "CANDLE (sample_candle 600)
           (if [(JInt 1, Some (Fin 11))] = [] then None else Some [(JInt 1, Some (Fin 11))])
         \<in> set (sent (emit_row (\<lambda>x. x) default_config
              (sample_session\<lparr>indicator_instances :=
                 [sample_instance (JInt 1) 2, sample_instance (JBool True) 1]\<rparr>)
              (sample_candle 600)))"
    using c by (rule conjunct2[THEN conjunct2, THEN conjunct2])
  show "\<exists>s r. update (\<lambda>x. x) (impl (sample_instance (JBool True) 1)) (Fin 11) = Inr (s, r)
         \<and> dict_get [(JInt 1, Some (Fin 11))] (inst_id (sample_instance (JBool True) 1)) = Some r"
    by (rule same_id_last_value_wins[where rnd = "\<lambda>x. x" and pl = "[]" and ws = "[]"
          and us = "[sample_instance (JInt 1) 2]" and v = "Fin 11"
          and regb = "[updated_instance (JInt 1) 2 (Fin 11), updated_instance (JBool True) 1 (Fin 11)]"
          and plb = "[(JInt 1, Some (Fin 11))]",
          THEN conjunct2, THEN conjunct2, THEN mp])
      (simp add: sample_update_instances del: update_instances.simps)
qed

text \<open>
  C4 as stated fails: two specs with the id "a" leave two instances in the registry,
  the one of the earlier spec (period 1) and the one of the later spec (period 2).
\<close>

theorem same_id_both_registered_counterexample:
  "build_instances
     [JObj [(''type'', JStr ''sma''), (''id'', JStr ''a''), (''params'', JObj [(''period'', JInt 1)])],
      JObj [(''type'', JStr ''sma''), (''id'', JStr ''a''), (''params'', JObj [(''period'', JInt 2)])]]
   = Inr [\<lparr>inst_id = JStr ''a'', warmup = 0, impl = SimpleMovingAverage 1\<rparr>,
          \<lparr>inst_id = JStr ''a'', warmup = 1, impl = SimpleMovingAverage 2\<rparr>]
   \<and> length [\<lparr>inst_id = JStr ''a'', warmup = 0, impl = SimpleMovingAverage 1\<rparr>,
          \<lparr>inst_id = JStr ''a'', warmup = 1, impl = SimpleMovingAverage 2\<rparr>] = 2"
  by (simp add: spec_instance_def spec_period_def period_raw_def get_def get_default_def)

section \<open>Properties of the session: cursor and speed\<close>

lemma f_lt_trans: "f_lt a b \<Longrightarrow> f_lt b c \<Longrightarrow> f_lt a c"
  by (cases a; cases b; cases c) auto

lemma ts_le_refl: "ts_le a a"
  by (simp add: ts_le_def)

lemma ts_le_trans: "ts_le a b \<Longrightarrow> ts_le b c \<Longrightarrow> ts_le a c"
  unfolding ts_le_def using f_lt_trans by blast

lemma cursor_le_refl: "cursor_le c c"
  by (cases c) (simp_all add: ts_le_refl)

lemma cursor_le_trans: "cursor_le a b \<Longrightarrow> cursor_le b c \<Longrightarrow> cursor_le a c"
  by (cases a; cases b; cases c) (auto intro: ts_le_trans)

lemma control_message_keeps:
  "last_timestamp (control_message rnd to_float st m) = last_timestamp st"
  "pending (control_message rnd to_float st m) = pending st"
  "status (control_message rnd to_float st m) = status st"
  by (auto simp: control_message_def split: option.splits json.splits sum.splits)

lemma emit_row_cases:
  "(status (emit_row rnd cfg st row) = status st
      \<and> last_timestamp (emit_row rnd cfg st row) = Some (timestamp row)
      \<and> pending (emit_row rnd cfg st row) = pending st)
   \<or> (\<exists>e. status (emit_row rnd cfg st row) = Raised e
      \<and> last_timestamp (emit_row rnd cfg st row) = last_timestamp st
      \<and> pending (emit_row rnd cfg st row) = pending st)"
  by (auto simp: emit_row_def Let_def split: sum.splits option.splits prod.splits)

lemma emit_row_speed: "speed (emit_row rnd cfg st row) = speed st"
  by (auto simp: emit_row_def Let_def split: sum.splits option.splits prod.splits)

lemma step_stopped: "status st \<noteq> Running \<Longrightarrow> step rnd cfg to_float st ev = st"
  by (simp add: step_def)

lemma run_Cons: "run rnd cfg to_float st (ev # evs) = run rnd cfg to_float (step rnd cfg to_float st ev) evs"
  by (simp add: run_def)

lemma run_Nil: "run rnd cfg to_float st [] = st"
  by (simp add: run_def)

subsection \<open>The cursor\<close>

lemma step_batch_inv:
  assumes "batch_inv rows st" "\<not> is_cycle ev"
  shows "batch_inv rows (step rnd cfg to_float st ev)"
proof (cases "status st = Running")
  case False
  then show ?thesis using assms(1) by (simp add: step_stopped)
next
  case True
  show ?thesis
  proof (cases ev)
    case (Receive m)
    then show ?thesis
      using assms(1) True by (auto simp: step_def batch_inv_def control_message_keeps)
  next
    case (Cycle rs)
    then show ?thesis using assms(2) by simp
  next
    case Emit
    show ?thesis
    proof (cases "pending st")
      case Nil
      then show ?thesis using assms(1) True Emit by (simp add: step_def)
    next
      case (Cons row rest)
      let ?st1 = "st\<lparr>pending := rest\<rparr>"
      have st: "step rnd cfg to_float st ev = emit_row rnd cfg ?st1 row"
        using True Emit Cons by (simp add: step_def)
      from assms(1) True Cons have l: "last (row # rest) = last rows"
        by (simp add: batch_inv_def)
      from emit_row_cases[of rnd cfg ?st1 row] show ?thesis
      proof
        assume a: "status (emit_row rnd cfg ?st1 row) = status ?st1
          \<and> last_timestamp (emit_row rnd cfg ?st1 row) = Some (timestamp row)
          \<and> pending (emit_row rnd cfg ?st1 row) = pending ?st1"
        show ?thesis
        proof (cases "rest = []")
          case True
          with l have "row = last rows" by simp
          with a True show ?thesis unfolding st batch_inv_def by simp
        next
          case False
          with l have "last rest = last rows" by simp
          with a False show ?thesis unfolding st batch_inv_def by simp
        qed
      next
        assume "\<exists>e. status (emit_row rnd cfg ?st1 row) = Raised e
          \<and> last_timestamp (emit_row rnd cfg ?st1 row) = last_timestamp ?st1
          \<and> pending (emit_row rnd cfg ?st1 row) = pending ?st1"
        then show ?thesis unfolding st batch_inv_def by auto
      qed
    qed
  next
    case Disconnect
    then show ?thesis using True by (simp add: step_def batch_inv_def)
  qed
qed

lemma run_batch_inv:
  "batch_inv rows st \<Longrightarrow> no_cycle evs \<Longrightarrow> batch_inv rows (run rnd cfg to_float st evs)"
proof (induction evs arbitrary: st)
  case Nil
  then show ?case by (simp add: run_Nil)
next
  case (Cons ev evs)
  from Cons.prems(2) have e: "\<not> is_cycle ev" and r: "no_cycle evs"
    by (simp_all add: no_cycle_def)
  from step_batch_inv[OF Cons.prems(1) e] have "batch_inv rows (step rnd cfg to_float st ev)" .
  from Cons.IH[OF this r] show ?case by (simp add: run_Cons)
qed

lemma batch_leaves_last_timestamp:
  assumes "status st = Running" "pending st = []" "\<not> paused st" "rows \<noteq> []" "no_cycle evs"
    and "status (run rnd cfg to_float st (Cycle rows # evs)) = Running"
    and "pending (run rnd cfg to_float st (Cycle rows # evs)) = []"
  shows "last_timestamp (run rnd cfg to_float st (Cycle rows # evs)) = Some (timestamp (last rows))"
proof -
  have s: "step rnd cfg to_float st (Cycle rows) = st\<lparr>pending := rows\<rparr>"
    using assms(1-3) by (simp add: step_def)
  have "batch_inv rows (st\<lparr>pending := rows\<rparr>)"
    using assms(4) by (simp add: batch_inv_def)
  from run_batch_inv[OF this assms(5)]
  have "batch_inv rows (run rnd cfg to_float st (Cycle rows # evs))"
    by (simp add: run_Cons s)
  with assms(6,7) show ?thesis by (simp add: batch_inv_def)
qed

lemma step_idle_cursor:
  assumes "pending st = []" "\<not> is_cycle ev"
  shows "pending (step rnd cfg to_float st ev) = []
    \<and> last_timestamp (step rnd cfg to_float st ev) = last_timestamp st"
  using assms by (cases ev) (auto simp: step_def control_message_keeps)

lemma run_idle_cursor:
  "pending st = [] \<Longrightarrow> no_cycle evs \<Longrightarrow>
   last_timestamp (run rnd cfg to_float st evs) = last_timestamp st"
proof (induction evs arbitrary: st)
  case Nil
  then show ?case by (simp add: run_Nil)
next
  case (Cons ev evs)
  from Cons.prems(2) have e: "\<not> is_cycle ev" and r: "no_cycle evs"
    by (simp_all add: no_cycle_def)
  from step_idle_cursor[OF Cons.prems(1) e, of rnd cfg to_float]
  have p: "pending (step rnd cfg to_float st ev) = []"
    and c: "last_timestamp (step rnd cfg to_float st ev) = last_timestamp st" by simp_all
  from Cons.IH[OF p r] c show ?case by (simp add: run_Cons)
qed

lemma empty_batch_keeps_cursor:
  assumes "pending st = []" "no_cycle evs"
  shows "last_timestamp (run rnd cfg to_float st (Cycle [] # evs)) = last_timestamp st"
proof -
  have "pending (step rnd cfg to_float st (Cycle [])) = []"
    and "last_timestamp (step rnd cfg to_float st (Cycle [])) = last_timestamp st"
    using assms(1) by (simp_all add: step_def)
  with run_idle_cursor[OF this(1) assms(2), of rnd cfg to_float] show ?thesis
    by (simp add: run_Cons)
qed

lemma step_cursor_mono:
  assumes "pending_ok st" "case ev of Cycle rows \<Rightarrow> fetch_ok st rows | _ \<Rightarrow> True"
  shows "pending_ok (step rnd cfg to_float st ev)
    \<and> cursor_le (last_timestamp st) (last_timestamp (step rnd cfg to_float st ev))"
proof (cases "status st = Running")
  case False
  then show ?thesis using assms(1) by (simp add: step_stopped cursor_le_refl)
next
  case True
  show ?thesis
  proof (cases ev)
    case (Receive m)
    then show ?thesis
      using assms(1) True
      by (auto simp: step_def pending_ok_def control_message_keeps cursor_le_refl
          split: option.splits)
  next
    case (Cycle rows)
    show ?thesis
    proof (cases "pending st \<noteq> [] \<or> paused st")
      case True
      then show ?thesis using assms(1) Cycle \<open>status st = Running\<close>
        by (auto simp: step_def cursor_le_refl)
    next
      case False
      then have s: "step rnd cfg to_float st ev = st\<lparr>pending := rows\<rparr>"
        using Cycle \<open>status st = Running\<close> by (simp add: step_def)
      from assms(2) Cycle have f: "fetch_ok st rows" by simp
      have "pending_ok (st\<lparr>pending := rows\<rparr>)"
        using f by (auto simp: fetch_ok_def pending_ok_def split: option.splits)
      then show ?thesis unfolding s by (simp add: cursor_le_refl)
    qed
  next
    case Emit
    show ?thesis
    proof (cases "pending st")
      case Nil
      then show ?thesis using assms(1) True Emit by (simp add: step_def cursor_le_refl)
    next
      case (Cons row rest)
      let ?st1 = "st\<lparr>pending := rest\<rparr>"
      have st: "step rnd cfg to_float st ev = emit_row rnd cfg ?st1 row"
        using True Emit Cons by (simp add: step_def)
      from assms(1) Cons have srt: "sorted_wrt ts_le (map timestamp rest)"
        and ge: "\<forall>r\<in>set rest. ts_le (timestamp row) (timestamp r)"
        and cur: "cursor_le (last_timestamp st) (Some (timestamp row))"
        and old: "case last_timestamp st of None \<Rightarrow> True
                  | Some c \<Rightarrow> list_all (\<lambda>r. ts_le c (timestamp r)) rest"
        by (auto simp: pending_ok_def list_all_iff split: option.splits)
      from emit_row_cases[of rnd cfg ?st1 row] show ?thesis
      proof
        assume a: "status (emit_row rnd cfg ?st1 row) = status ?st1
          \<and> last_timestamp (emit_row rnd cfg ?st1 row) = Some (timestamp row)
          \<and> pending (emit_row rnd cfg ?st1 row) = pending ?st1"
        then show ?thesis unfolding st using srt ge cur
          by (simp add: pending_ok_def list_all_iff split: option.splits)
      next
        assume "\<exists>e. status (emit_row rnd cfg ?st1 row) = Raised e
          \<and> last_timestamp (emit_row rnd cfg ?st1 row) = last_timestamp ?st1
          \<and> pending (emit_row rnd cfg ?st1 row) = pending ?st1"
        then show ?thesis unfolding st using srt old
          by (auto simp: pending_ok_def cursor_le_refl split: option.splits)
      qed
    qed
  next
    case Disconnect
    then show ?thesis using assms(1) True
      by (simp add: step_def pending_ok_def cursor_le_refl split: option.splits)
  qed
qed

lemma run_cursor_mono:
  "pending_ok st \<Longrightarrow> fetches_ok rnd cfg to_float st evs \<Longrightarrow>
   cursor_le (last_timestamp st) (last_timestamp (run rnd cfg to_float st evs))"
proof (induction evs arbitrary: st)
  case Nil
  then show ?case by (simp add: run_Nil cursor_le_refl)
next
  case (Cons ev evs)
  from Cons.prems(2) have e: "case ev of Cycle rows \<Rightarrow> fetch_ok st rows | _ \<Rightarrow> True"
    and r: "fetches_ok rnd cfg to_float (step rnd cfg to_float st ev) evs" by simp_all
  from step_cursor_mono[OF Cons.prems(1) e, of rnd cfg to_float]
  have p: "pending_ok (step rnd cfg to_float st ev)"
    and c: "cursor_le (last_timestamp st) (last_timestamp (step rnd cfg to_float st ev))"
    by simp_all
  from cursor_le_trans[OF c Cons.IH[OF p r]] show ?case by (simp add: run_Cons)
qed

text \<open>
  C9. After the replay loop has handled a non-empty batch (it fetched the rows, and
  reached the end of the batch still running, whatever the control listener did
  meanwhile), the cursor is the timestamp of the last row of the batch. An empty
  batch leaves the cursor as it was. In a run where every fetch answers within the
  ordering contract of the data source, the cursor never decreases.
\<close>

theorem cursor_follows_batches:
  "(status st = Running \<and> pending st = [] \<and> \<not> paused st \<and> rows \<noteq> [] \<and> no_cycle evs
      \<and> status (run rnd cfg to_float st (Cycle rows # evs)) = Running
      \<and> pending (run rnd cfg to_float st (Cycle rows # evs)) = []
     \<longrightarrow> last_timestamp (run rnd cfg to_float st (Cycle rows # evs))
          = Some (timestamp (last rows)))
   \<and> (pending st = [] \<and> no_cycle evs
     \<longrightarrow> last_timestamp (run rnd cfg to_float st (Cycle [] # evs)) = last_timestamp st)
   \<and> (pending st = [] \<and> fetches_ok rnd cfg to_float st trace
     \<longrightarrow> cursor_le (last_timestamp st) (last_timestamp (run rnd cfg to_float st trace)))"
proof (intro conjI impI)
  assume "status st = Running \<and> pending st = [] \<and> \<not> paused st \<and> rows \<noteq> [] \<and> no_cycle evs
      \<and> status (run rnd cfg to_float st (Cycle rows # evs)) = Running
      \<and> pending (run rnd cfg to_float st (Cycle rows # evs)) = []"
  then show "last_timestamp (run rnd cfg to_float st (Cycle rows # evs))
      = Some (timestamp (last rows))"
    using batch_leaves_last_timestamp[of st rows evs rnd cfg to_float] by blast
next
  assume "pending st = [] \<and> no_cycle evs"
  then show "last_timestamp (run rnd cfg to_float st (Cycle [] # evs)) = last_timestamp st"
    using empty_batch_keeps_cursor[of st evs rnd cfg to_float] by blast
next
  assume a: "pending st = [] \<and> fetches_ok rnd cfg to_float st trace"
  then have "pending_ok st" by (simp add: pending_ok_def split: option.splits)
  with a show "cursor_le (last_timestamp st) (last_timestamp (run rnd cfg to_float st trace))"
    using run_cursor_mono[of st rnd cfg to_float trace] by blast
qed

lemma sample_run:
  "run (\<lambda>x. x) default_config Map.empty sample_session
     (Cycle [sample_candle 1000, sample_candle 2000]
      # [Emit, Receive (Some (JObj [(''type'', JStr ''PAUSE'')])), Emit]) =
   sample_session
     \<lparr>paused := True, last_sent_ts := Some (Fin 2000), last_timestamp := Some (Fin 2000),
      sent := [CANDLE (sample_candle 1000) None, CANDLE (sample_candle 2000) None,
               SLEEP_MS (Fin 1)]\<rparr>"
  by (simp add: run_def step_def emit_row_def control_message_def pacing_delay_def
      dynamic_max_def sample_session_def sample_candle_def default_config_def tenth_def
      get_def get_default_def f_sub_def py_max_Fin py_min_Fin Let_def)

lemma sample_fetches_ok:
  "fetches_ok (\<lambda>x. x) default_config Map.empty sample_session
     (Cycle [sample_candle 1000, sample_candle 2000]
      # [Emit, Receive (Some (JObj [(''type'', JStr ''PAUSE'')])), Emit])"
  by (simp add: fetch_ok_def ts_le_def step_def emit_row_def control_message_def pacing_delay_def
      dynamic_max_def sample_session_def sample_candle_def default_config_def tenth_def
      get_def get_default_def f_sub_def py_max_Fin py_min_Fin Let_def)

theorem cursor_follows_batches_witness:
  "last_timestamp (run (\<lambda>x. x) default_config Map.empty sample_session
       (Cycle [sample_candle 1000, sample_candle 2000]
        # [Emit, Receive (Some (JObj [(''type'', JStr ''PAUSE'')])), Emit]))
     = Some (timestamp (last [sample_candle 1000, sample_candle 2000]))
   \<and> last_timestamp (run (\<lambda>x. x) default_config Map.empty sample_session
       (Cycle [] # [Emit, Receive (Some (JObj [(''type'', JStr ''PAUSE'')])), Emit]))
     = last_timestamp sample_session
   \<and> cursor_le (last_timestamp sample_session)
       (last_timestamp (run (\<lambda>x. x) default_config Map.empty sample_session
         (Cycle [sample_candle 1000, sample_candle 2000]
          # [Emit, Receive (Some (JObj [(''type'', JStr ''PAUSE'')])), Emit])))"
proof (intro conjI)
  show "last_timestamp (run (\<lambda>x. x) default_config Map.empty sample_session
       (Cycle [sample_candle 1000, sample_candle 2000]
        # [Emit, Receive (Some (JObj [(''type'', JStr ''PAUSE'')])), Emit]))
     = Some (timestamp (last [sample_candle 1000, sample_candle 2000]))"
    by (rule cursor_follows_batches[THEN conjunct1, THEN mp])
      (simp add: sample_run no_cycle_def, simp add: sample_session_def)
next
  show "last_timestamp (run (\<lambda>x. x) default_config Map.empty sample_session
       (Cycle [] # [Emit, Receive (Some (JObj [(''type'', JStr ''PAUSE'')])), Emit]))
     = last_timestamp sample_session"
    by (rule cursor_follows_batches[THEN conjunct2, THEN conjunct1, THEN mp])
      (simp add: no_cycle_def sample_session_def)
next
  show "cursor_le (last_timestamp sample_session)
       (last_timestamp (run (\<lambda>x. x) default_config Map.empty sample_session
         (Cycle [sample_candle 1000, sample_candle 2000]
          # [Emit, Receive (Some (JObj [(''type'', JStr ''PAUSE'')])), Emit])))"
    by (rule cursor_follows_batches[THEN conjunct2, THEN conjunct2, THEN mp])
      (rule conjI[OF _ sample_fetches_ok], simp add: sample_session_def)
qed


subsection \<open>The speed\<close>

lemma tenth_le_py_max: "f_le tenth (py_max tenth x)"
  by (cases x) (auto simp: tenth_def py_max_def f_gt_def)

lemma tenth_le_one: "f_le tenth (Fin 1)"
  by (simp add: tenth_def)

lemma initial_speed_ok: "f_le tenth (initial_speed to_float raw)"
  by (auto simp: initial_speed_def tenth_le_py_max tenth_le_one split: option.splits)

lemma handle_setup_speed:
  "handle_setup cfg to_float loads params = Started st \<Longrightarrow>
   speed st = initial_speed to_float (params ''speed'')"
  by (auto simp: handle_setup_def Let_def split: if_splits option.splits sum.splits)

lemma control_message_set_speed:
  assumes "get kv ''type'' = JStr ''SET_SPEED''"
  shows "py_float rnd to_float (get kv ''speed'') = Inr x \<Longrightarrow>
     speed (control_message rnd to_float st (Some (JObj kv))) = py_max tenth x"
    and "py_float rnd to_float (get kv ''speed'') = Inl e \<Longrightarrow>
     speed (control_message rnd to_float st (Some (JObj kv))) = speed st
     \<and> paused (control_message rnd to_float st (Some (JObj kv))) = paused st"
  using assms by (simp_all add: control_message_def)

lemma control_message_speed_ok:
  "f_le tenth (speed st) \<Longrightarrow> f_le tenth (speed (control_message rnd to_float st m))"
  by (auto simp: control_message_def tenth_le_py_max split: option.splits json.splits sum.splits)

lemma step_speed_ok:
  "f_le tenth (speed st) \<Longrightarrow> f_le tenth (speed (step rnd cfg to_float st ev))"
  by (cases ev)
    (auto simp: step_def control_message_speed_ok emit_row_speed split: list.splits)

lemma run_speed_ok:
  "f_le tenth (speed st) \<Longrightarrow> f_le tenth (speed (run rnd cfg to_float st evs))"
proof (induction evs arbitrary: st)
  case Nil
  then show ?case by (simp add: run_Nil)
next
  case (Cons ev evs)
  from step_speed_ok[OF Cons.prems] have "f_le tenth (speed (step rnd cfg to_float st ev))" .
  from Cons.IH[OF this] show ?case by (simp add: run_Cons)
qed

text \<open>
  C10. At every point that a session reaches after its setup, whatever the control
  listener receives and whatever the replay loop does, the speed is at least the
  float 0.1. The setup takes \<^verbatim>\<open>max(0.1, value)\<close> of a speed parameter that reads as
  a number, and 1.0 when the parameter is absent or does not read as one. A SET_SPEED
  whose speed converts to a number sets the speed to \<^verbatim>\<open>max(0.1, parsed)\<close>; one whose
  speed does not convert leaves the speed (and the pause flag) as it was.
\<close>

theorem speed_never_below_tenth:
  "(handle_setup cfg to_float loads params = Started st \<longrightarrow>
      speed st = initial_speed to_float (params ''speed'')
      \<and> f_le tenth (speed (run rnd cfg to_float st evs)))
   \<and> initial_speed to_float None = Fin 1
   \<and> (to_float raw = Some x \<longrightarrow> initial_speed to_float (Some raw) = py_max tenth x)
   \<and> (to_float bad = None \<longrightarrow> initial_speed to_float (Some bad) = Fin 1)
   \<and> (get kv ''type'' = JStr ''SET_SPEED'' \<and> py_float rnd to_float (get kv ''speed'') = Inr y \<longrightarrow>
        speed (control_message rnd to_float s (Some (JObj kv))) = py_max tenth y)
   \<and> (get kw ''type'' = JStr ''SET_SPEED'' \<and> py_float rnd to_float (get kw ''speed'') = Inl e \<longrightarrow>
        speed (control_message rnd to_float s (Some (JObj kw))) = speed s)"
proof (intro conjI impI)
  assume a: "handle_setup cfg to_float loads params = Started st"
  then show "speed st = initial_speed to_float (params ''speed'')"
    by (rule handle_setup_speed)
  then have "f_le tenth (speed st)" by (simp add: initial_speed_ok)
  then show "f_le tenth (speed (run rnd cfg to_float st evs))" by (rule run_speed_ok)
next
  show "initial_speed to_float None = Fin 1" by (simp add: initial_speed_def)
next
  assume "to_float raw = Some x"
  then show "initial_speed to_float (Some raw) = py_max tenth x"
    by (simp add: initial_speed_def)
next
  assume "to_float bad = None"
  then show "initial_speed to_float (Some bad) = Fin 1" by (simp add: initial_speed_def)
next
  assume "get kv ''type'' = JStr ''SET_SPEED'' \<and> py_float rnd to_float (get kv ''speed'') = Inr y"
  then show "speed (control_message rnd to_float s (Some (JObj kv))) = py_max tenth y"
    using control_message_set_speed(1)[of kv rnd to_float y s] by blast
next
  assume "get kw ''type'' = JStr ''SET_SPEED'' \<and> py_float rnd to_float (get kw ''speed'') = Inl e"
  then show "speed (control_message rnd to_float s (Some (JObj kw))) = speed s"
    using control_message_set_speed(2)[of kw rnd to_float e s] by blast
qed

lemma sample_setup:
  "handle_setup default_config [''2.5'' \<mapsto> Fin (5 / 2)] Map.empty
     [''symbol'' \<mapsto> ''BTC'', ''timeframe'' \<mapsto> ''15m'', ''after'' \<mapsto> ''500'', ''speed'' \<mapsto> ''2.5'']
   = Started (sample_session\<lparr>speed := Fin (5 / 2)\<rparr>)"
proof -
  have "py_int_str ''500'' = Some 500" by code_simp
  then show ?thesis
    by (simp add: handle_setup_def parse_indicators_def str_or_def initial_speed_def
        clamp_batch_size_def default_config_def sample_session_def tenth_def py_max_Fin)
qed

theorem speed_never_below_tenth_witness:
  "(speed (sample_session\<lparr>speed := Fin (5 / 2)\<rparr>)
      = initial_speed [''2.5'' \<mapsto> Fin (5 / 2)]
          ([''symbol'' \<mapsto> ''BTC'', ''timeframe'' \<mapsto> ''15m'', ''after'' \<mapsto> ''500'',
            ''speed'' \<mapsto> ''2.5''] ''speed'')
    \<and> f_le tenth (speed (run b64 default_config [''2.5'' \<mapsto> Fin (5 / 2)]
        (sample_session\<lparr>speed := Fin (5 / 2)\<rparr>)
        [Receive (Some (set_speed (JFloat (Fin (1 / 100))))), Cycle [sample_candle 1000], Emit])))
   \<and> initial_speed [''2.5'' \<mapsto> Fin (5 / 2)] (Some ''2.5'') = py_max tenth (Fin (5 / 2))
   \<and> initial_speed [''2.5'' \<mapsto> Fin (5 / 2)] (Some ''fast'') = Fin 1
   \<and> speed (control_message b64 [''2.5'' \<mapsto> Fin (5 / 2)] sample_session
        (Some (JObj [(''type'', JStr ''SET_SPEED''), (''speed'', JStr ''2.5'')])))
      = py_max tenth (Fin (5 / 2))
   \<and> speed (control_message b64 [''2.5'' \<mapsto> Fin (5 / 2)] sample_session
        (Some (JObj [(''type'', JStr ''SET_SPEED''), (''speed'', JStr ''fast'')])))
      = speed sample_session"
proof (intro conjI)
  note T = speed_never_below_tenth[where cfg = default_config
      and to_float = "[''2.5'' \<mapsto> Fin (5 / 2)]" and loads = Map.empty
      and params = "[''symbol'' \<mapsto> ''BTC'', ''timeframe'' \<mapsto> ''15m'', ''after'' \<mapsto> ''500'',
            ''speed'' \<mapsto> ''2.5'']"
      and st = "sample_session\<lparr>speed := Fin (5 / 2)\<rparr>" and rnd = b64
      and evs = "[Receive (Some (set_speed (JFloat (Fin (1 / 100))))), Cycle [sample_candle 1000],
            Emit]"
      and raw = "''2.5''" and x = "Fin (5 / 2)" and bad = "''fast''"
      and kv = "[(''type'', JStr ''SET_SPEED''), (''speed'', JStr ''2.5'')]" and y = "Fin (5 / 2)"
      and kw = "[(''type'', JStr ''SET_SPEED''), (''speed'', JStr ''fast'')]" and e = ValueError
      and s = sample_session]
  from T[THEN conjunct1, THEN mp, OF sample_setup]
  show "speed (sample_session\<lparr>speed := Fin (5 / 2)\<rparr>)
      = initial_speed [''2.5'' \<mapsto> Fin (5 / 2)]
          ([''symbol'' \<mapsto> ''BTC'', ''timeframe'' \<mapsto> ''15m'', ''after'' \<mapsto> ''500'',
            ''speed'' \<mapsto> ''2.5''] ''speed'')"
    and "f_le tenth (speed (run b64 default_config [''2.5'' \<mapsto> Fin (5 / 2)]
        (sample_session\<lparr>speed := Fin (5 / 2)\<rparr>)
        [Receive (Some (set_speed (JFloat (Fin (1 / 100))))), Cycle [sample_candle 1000], Emit]))"
    by blast+
  show "initial_speed [''2.5'' \<mapsto> Fin (5 / 2)] (Some ''2.5'') = py_max tenth (Fin (5 / 2))"
    by (rule T[THEN conjunct2, THEN conjunct2, THEN conjunct1, THEN mp]) simp
  show "initial_speed [''2.5'' \<mapsto> Fin (5 / 2)] (Some ''fast'') = Fin 1"
    by (rule T[THEN conjunct2, THEN conjunct2, THEN conjunct2, THEN conjunct1, THEN mp]) simp
  show "speed (control_message b64 [''2.5'' \<mapsto> Fin (5 / 2)] sample_session
        (Some (JObj [(''type'', JStr ''SET_SPEED''), (''speed'', JStr ''2.5'')])))
      = py_max tenth (Fin (5 / 2))"
    by (rule T[THEN conjunct2, THEN conjunct2, THEN conjunct2, THEN conjunct2, THEN conjunct1,
          THEN mp]) (simp add: get_def get_default_def)
  show "speed (control_message b64 [''2.5'' \<mapsto> Fin (5 / 2)] sample_session
        (Some (JObj [(''type'', JStr ''SET_SPEED''), (''speed'', JStr ''fast'')])))
      = speed sample_session"
    by (rule T[THEN conjunct2, THEN conjunct2, THEN conjunct2, THEN conjunct2, THEN conjunct2,
          THEN mp]) (simp add: get_def get_default_def)
qed


end
